theory Spec2Isabelle
  imports Main "HOL-Library.List_Lexorder" "HOL-Library.Char_ord"
begin

section \<open>Expense records\<close>

text \<open>
  The type \<open>Expense\<close> is imported from \<open>./types\<close>; the fields below are the ones the
  engine, the list screen and the edit form read or write. Optional fields are options
  (\<open>None\<close> is \<open>undefined\<close>), string unions are kept as the strings the code compares
  against, and every field the engine never looks at is gathered in \<open>payload\<close>.
  The field \<open>id\<close> is called \<open>expense_id\<close>. Numbers are integers: fractional
  counts and intervals are outside the model.
\<close>

record 'p expense =
  expense_id :: string
  date :: "string option"
  frequency :: "string option"
  recurrence :: "string option"
  monthlyRecurrenceType :: "string option"
  recurrenceInterval :: "int option"
  recurrenceDays :: "int list option"
  recurrenceEndType :: "string option"
  recurrenceEndDate :: "string option"
  recurrenceCount :: "int option"
  recurringExpenseId :: "string option"
  lastGeneratedDate :: "string option"
  payload :: 'p

text \<open>JavaScript truthiness of an optional string and of an optional number.\<close>

definition truthy_str :: "string option \<Rightarrow> bool" where
  "truthy_str s = (case s of None \<Rightarrow> False | Some v \<Rightarrow> v \<noteq> [])"

definition truthy_num :: "int option \<Rightarrow> bool" where
  "truthy_num n = (case n of None \<Rightarrow> False | Some v \<Rightarrow> v \<noteq> 0)"

section \<open>The Date object\<close>

text \<open>
  A \<open>Date\<close> is its time value: milliseconds since the epoch, or \<open>None\<close> for the
  Invalid Date (NaN). The local zone is a fixed offset of \<open>tz\<close> minutes east of UTC
  (daylight-saving transitions are outside the model). The day arithmetic follows the
  abstract operations of ECMAScript: Day, TimeWithinDay, DayFromYear, YearFromTime,
  MonthFromTime, DateFromTime, MakeDay, MakeDate, TimeClip.
\<close>

type_synonym jsdate = "int option"

definition msPerDay :: int where
  "msPerDay = 86400000"

definition Day :: "int \<Rightarrow> int" where
  "Day t = t div msPerDay"

definition TimeWithinDay :: "int \<Rightarrow> int" where
  "TimeWithinDay t = t mod msPerDay"

definition InLeapYear :: "int \<Rightarrow> bool" where
  "InLeapYear y = ((y mod 4 = 0 \<and> y mod 100 \<noteq> 0) \<or> y mod 400 = 0)"

definition DayFromYear :: "int \<Rightarrow> int" where
  "DayFromYear y =
     365 * (y - 1970) + (y - 1969) div 4 - (y - 1901) div 100 + (y - 1601) div 400"

text \<open>
  YearFromTime is the largest year whose first day is not after the given day: a
  downward search from a year that is not too small.
\<close>

function year_search :: "int \<Rightarrow> int \<Rightarrow> int" where
  "year_search y n = (if DayFromYear y \<le> n then y else year_search (y - 1) n)"
  by pat_completeness auto
termination
proof (relation "measure (\<lambda>(y, n). nat (DayFromYear y - n))")
  show "wf (measure (\<lambda>(y, n). nat (DayFromYear y - n)))"
    by simp
next
  fix y n :: int
  assume a: "\<not> DayFromYear y \<le> n"
  have dm: "(k * q + r) div k = q" if "0 \<le> r" "r < k" for q r k :: int
    using that by (simp add: div_pos_pos_trivial)
  have step: "x div k \<le> (x + 1) div k \<and> (x + 1) div k \<le> x div k + 1"
    if "0 < k" for x k :: int
  proof (cases "x mod k + 1 = k")
    case True
    have e: "x = k * (x div k) + x mod k" by simp
    from e True have "x + 1 = k * (x div k) + k" by linarith
    then have "x + 1 = k * (x div k + 1)" by (simp add: algebra_simps)
    then have "(x + 1) div k = x div k + 1" using that by simp
    then show ?thesis by simp
  next
    case False
    have r: "0 \<le> x mod k" "x mod k < k" using that by simp_all
    with False have "0 \<le> x mod k + 1" "x mod k + 1 < k" by simp_all
    from dm[OF this, of "x div k"] show ?thesis by simp
  qed
  define a4 b4 a100 b100 a400 b400 where
    "a4 = (y - 1 - 1969) div 4" and "b4 = (y - 1969) div 4" and
    "a100 = (y - 1 - 1901) div 100" and "b100 = (y - 1901) div 100" and
    "a400 = (y - 1 - 1601) div 400" and "b400 = (y - 1601) div 400"
  have c4: "a4 \<le> b4"
    unfolding a4_def b4_def using step[of 4 "y - 1 - 1969"] by simp
  have c400: "a400 \<le> b400"
    unfolding a400_def b400_def using step[of 400 "y - 1 - 1601"] by simp
  have c100: "b100 \<le> a100 + 1"
    unfolding a100_def b100_def using step[of 100 "y - 1 - 1901"] by simp
  have l: "DayFromYear (y - 1) = 365 * (y - 1 - 1970) + a4 - a100 + a400"
    unfolding DayFromYear_def a4_def a100_def a400_def by (rule refl)
  have r: "DayFromYear y = 365 * (y - 1970) + b4 - b100 + b400"
    unfolding DayFromYear_def b4_def b100_def b400_def by (rule refl)
  have "DayFromYear (y - 1) < DayFromYear y"
    unfolding l r using c4 c400 c100 by simp
  with a show "((y - 1, n), (y, n)) \<in> measure (\<lambda>(y, n). nat (DayFromYear y - n))"
    by simp
qed

declare year_search.simps [simp del]

definition YearFromDay :: "int \<Rightarrow> int" where
  "YearFromDay n = year_search (1970 + max (- 1) (n div 365)) n"

definition month_start :: "bool \<Rightarrow> int \<Rightarrow> int" where
  "month_start lp m =
     (if m = 0 then 0
      else if m = 1 then 31
      else (if lp then 1 else 0) +
        (if m = 2 then 59 else if m = 3 then 90 else if m = 4 then 120
         else if m = 5 then 151 else if m = 6 then 181 else if m = 7 then 212
         else if m = 8 then 243 else if m = 9 then 273 else if m = 10 then 304
         else 334))"

definition MonthFromDayInYear :: "bool \<Rightarrow> int \<Rightarrow> int" where
  "MonthFromDayInYear lp d =
     (let l = (if lp then 1 else 0) in
      if d < 31 then 0
      else if d < 59 + l then 1
      else if d < 90 + l then 2
      else if d < 120 + l then 3
      else if d < 151 + l then 4
      else if d < 181 + l then 5
      else if d < 212 + l then 6
      else if d < 243 + l then 7
      else if d < 273 + l then 8
      else if d < 304 + l then 9
      else if d < 334 + l then 10
      else 11)"

definition YearFromTime :: "int \<Rightarrow> int" where
  "YearFromTime t = YearFromDay (Day t)"

definition DayWithinYear :: "int \<Rightarrow> int" where
  "DayWithinYear t = Day t - DayFromYear (YearFromTime t)"

definition MonthFromTime :: "int \<Rightarrow> int" where
  "MonthFromTime t = MonthFromDayInYear (InLeapYear (YearFromTime t)) (DayWithinYear t)"

definition DateFromTime :: "int \<Rightarrow> int" where
  "DateFromTime t =
     DayWithinYear t - month_start (InLeapYear (YearFromTime t)) (MonthFromTime t) + 1"

definition MakeDay :: "int \<Rightarrow> int \<Rightarrow> int \<Rightarrow> int" where
  "MakeDay year month dt =
     (let ym = year + month div 12; mn = month mod 12
      in DayFromYear ym + month_start (InLeapYear ym) mn + dt - 1)"

definition MakeDate :: "int \<Rightarrow> int \<Rightarrow> int" where
  "MakeDate day time = day * msPerDay + time"

definition TimeClip :: "int \<Rightarrow> jsdate" where
  "TimeClip t = (if \<bar>t\<bar> \<le> 8640000000000000 then Some t else None)"

definition LocalTime :: "int \<Rightarrow> int \<Rightarrow> int" where
  "LocalTime tz t = t + tz * 60000"

definition UTC_of :: "int \<Rightarrow> int \<Rightarrow> int" where
  "UTC_of tz t = t - tz * 60000"

text \<open>
  \<open>new Date(year, monthIndex, day)\<close>: local midnight of the given civil day; a year
  from 0 to 99 means 1900 + year; any NaN argument gives the Invalid Date.
\<close>

definition new_Date :: "int \<Rightarrow> int option \<Rightarrow> int option \<Rightarrow> int option \<Rightarrow> jsdate" where
  "new_Date tz year month dt =
     (case (year, month, dt) of
        (Some y, Some m, Some d) \<Rightarrow>
          (let yr = (if 0 \<le> y \<and> y \<le> 99 then 1900 + y else y)
           in TimeClip (UTC_of tz (MakeDate (MakeDay yr m d) 0)))
      | _ \<Rightarrow> None)"

text \<open>The setters and getters that \<open>calculateNextDueDate\<close> calls, in local time.\<close>

definition getDate :: "int \<Rightarrow> int \<Rightarrow> int" where
  "getDate tz tv = DateFromTime (LocalTime tz tv)"

definition getMonth :: "int \<Rightarrow> int \<Rightarrow> int" where
  "getMonth tz tv = MonthFromTime (LocalTime tz tv)"

definition getFullYear :: "int \<Rightarrow> int \<Rightarrow> int" where
  "getFullYear tz tv = YearFromTime (LocalTime tz tv)"

definition setDate :: "int \<Rightarrow> int \<Rightarrow> int \<Rightarrow> jsdate" where
  "setDate tz tv dt =
     (let t = LocalTime tz tv
      in TimeClip (UTC_of tz
           (MakeDate (MakeDay (YearFromTime t) (MonthFromTime t) dt) (TimeWithinDay t))))"

definition setMonth :: "int \<Rightarrow> int \<Rightarrow> int \<Rightarrow> jsdate" where
  "setMonth tz tv month =
     (let t = LocalTime tz tv
      in TimeClip (UTC_of tz
           (MakeDate (MakeDay (YearFromTime t) month (DateFromTime t)) (TimeWithinDay t))))"

definition setFullYear :: "int \<Rightarrow> int \<Rightarrow> int \<Rightarrow> jsdate" where
  "setFullYear tz tv year =
     (let t = LocalTime tz tv
      in TimeClip (UTC_of tz
           (MakeDate (MakeDay year (MonthFromTime t) (DateFromTime t)) (TimeWithinDay t))))"

section \<open>Date strings\<close>

text \<open>
  \<open>Number\<close> on the pieces of a date string: the empty string is 0 and a run of
  decimal digits (with an optional leading plus sign, as \<open>toISOString\<close> writes for
  years beyond 9999) is its value; these are the pieces of every string that
  \<open>toYYYYMMDD\<close> prints. On every other piece the function below answers NaN. That
  is the answer of JavaScript except on its other numeric literals (surrounding white
  space, a fraction, an exponent, a radix prefix, \<open>Infinity\<close>): date strings with
  such a piece are outside the model, and \<open>parseDate\<close> is the source's function on
  the others only. The results on the engine hold for whatever first due date a
  template has; the ones that read a string back read a string \<open>toYYYYMMDD\<close>
  printed. Strings are compared as JavaScript compares them, by character code.
\<close>

definition is_digit :: "char \<Rightarrow> bool" where
  "is_digit c = (CHR ''0'' \<le> c \<and> c \<le> CHR ''9'')"

definition digit_val :: "char \<Rightarrow> int" where
  "digit_val c = int (of_char c) - 48"

fun digits_val :: "int \<Rightarrow> string \<Rightarrow> int option" where
  "digits_val acc [] = Some acc"
| "digits_val acc (c # cs) =
     (if is_digit c then digits_val (10 * acc + digit_val c) cs else None)"

definition Number_js :: "string \<Rightarrow> int option" where
  "Number_js s =
     (case s of
        [] \<Rightarrow> Some 0
      | c # cs \<Rightarrow> if c = CHR ''+'' then (if cs = [] then None else digits_val 0 cs)
                  else digits_val 0 s)"

text \<open>\<open>s.split('-')\<close>: the pieces between the dashes, at least one piece.\<close>

fun split_dash :: "string \<Rightarrow> string \<Rightarrow> string list" where
  "split_dash acc [] = [acc]"
| "split_dash acc (c # cs) =
     (if c = CHR ''-'' then acc # split_dash [] cs else split_dash (acc @ [c]) cs)"

text \<open>
  \<open>parseDate\<close>: a missing second or third piece is \<open>undefined\<close>, which makes the
  argument NaN; pieces after the third are ignored.
\<close>

definition parseDate :: "int \<Rightarrow> string \<Rightarrow> jsdate" where
  "parseDate tz dateString =
     (case map Number_js (split_dash [] dateString) of
        year # month # day # _ \<Rightarrow> new_Date tz year (map_option (\<lambda>m. m - 1) month) day
      | _ \<Rightarrow> None)"

text \<open>\<open>parseLocalYYYYMMDD\<close> of the list screen: null for a missing or empty string.\<close>

definition parseLocalYYYYMMDD :: "int \<Rightarrow> string option \<Rightarrow> jsdate option" where
  "parseLocalYYYYMMDD tz dateString =
     (case dateString of
        None \<Rightarrow> None
      | Some s \<Rightarrow> if s = [] then None else Some (parseDate tz s))"

definition digit_char :: "int \<Rightarrow> char" where
  "digit_char d = char_of (48 + nat d)"

definition pad2 :: "int \<Rightarrow> string" where
  "pad2 n = [digit_char (n div 10 mod 10), digit_char (n mod 10)]"

definition pad4 :: "int \<Rightarrow> string" where
  "pad4 n = [digit_char (n div 1000 mod 10), digit_char (n div 100 mod 10),
             digit_char (n div 10 mod 10), digit_char (n mod 10)]"

definition pad6 :: "int \<Rightarrow> string" where
  "pad6 n = [digit_char (n div 100000 mod 10), digit_char (n div 10000 mod 10)] @ pad4 n"

definition iso_year :: "int \<Rightarrow> string" where
  "iso_year y =
     (if 0 \<le> y \<and> y \<le> 9999 then pad4 y
      else if y < 0 then CHR ''-'' # pad6 (- y)
      else CHR ''+'' # pad6 y)"

text \<open>
  \<open>toYYYYMMDD\<close>: the date part of \<open>toISOString\<close>, that is the civil day in UTC. It
  is applied to valid dates only (the loop guard \<open>nextDue <= today\<close> is false for the
  Invalid Date), so the RangeError of \<open>toISOString\<close> is never raised.
\<close>

definition toYYYYMMDD :: "int \<Rightarrow> string" where
  "toYYYYMMDD tv =
     iso_year (YearFromTime tv) @ ''-'' @ pad2 (MonthFromTime tv + 1) @ ''-'' @
     pad2 (DateFromTime tv)"

section \<open>The recurrence rule\<close>

definition calculateNextDueDate :: "int \<Rightarrow> 'p expense \<Rightarrow> jsdate \<Rightarrow> jsdate option" where
  "calculateNextDueDate tz template fromDate =
     (if frequency template \<noteq> Some ''recurring'' \<or> \<not> truthy_str (recurrence template)
      then None
      else
        (let interval = (if truthy_num (recurrenceInterval template)
                         then the (recurrenceInterval template) else 1)
         in if recurrence template = Some ''daily'' then
              Some (case fromDate of None \<Rightarrow> None
                    | Some tv \<Rightarrow> setDate tz tv (getDate tz tv + interval))
            else if recurrence template = Some ''weekly'' then
              Some (case fromDate of None \<Rightarrow> None
                    | Some tv \<Rightarrow> setDate tz tv (getDate tz tv + 7 * interval))
            else if recurrence template = Some ''monthly'' then
              Some (case fromDate of None \<Rightarrow> None
                    | Some tv \<Rightarrow> setMonth tz tv (getMonth tz tv + interval))
            else if recurrence template = Some ''yearly'' then
              Some (case fromDate of None \<Rightarrow> None
                    | Some tv \<Rightarrow> setFullYear tz tv (getFullYear tz tv + interval))
            else None))"

section \<open>The generation engine\<close>

text \<open>
  The effect in \<open>App\<close> that materializes due occurrences. Its two local arrays, the
  identifiers drawn from \<open>crypto.randomUUID\<close> (a stream, read in order) and the
  templates reported by \<open>console.warn\<close> make up the state of one pass.
\<close>

record 'p gen_state =
  newExpenses :: "'p expense list"
  templatesToUpdate :: "'p expense list"
  uuidsDrawn :: nat
  warnings :: "'p expense list"

definition references :: "'p expense \<Rightarrow> 'p expense \<Rightarrow> bool" where
  "references template e = (recurringExpenseId e = Some (expense_id template))"

definition totalGenerated :: "'p expense list \<Rightarrow> 'p expense list \<Rightarrow> 'p expense \<Rightarrow> nat" where
  "totalGenerated expenses newExps template =
     length (filter (references template) expenses) +
     length (filter (references template) newExps)"

definition date_break :: "'p expense \<Rightarrow> int \<Rightarrow> bool" where
  "date_break template nextDue =
     (recurrenceEndType template = Some ''date'' \<and>
      truthy_str (recurrenceEndDate template) \<and>
      toYYYYMMDD nextDue > the (recurrenceEndDate template))"

definition count_break :: "'p expense \<Rightarrow> nat \<Rightarrow> bool" where
  "count_break template generated =
     (recurrenceEndType template = Some ''count'' \<and>
      truthy_num (recurrenceCount template) \<and>
      int generated \<ge> the (recurrenceCount template))"

definition instanceExists ::
  "'p expense list \<Rightarrow> 'p expense list \<Rightarrow> 'p expense \<Rightarrow> string \<Rightarrow> bool" where
  "instanceExists expenses newExps template nextDueDateString =
     ((\<exists>exp \<in> set expenses. references template exp \<and> date exp = Some nextDueDateString) \<or>
      (\<exists>exp \<in> set newExps. references template exp \<and> date exp = Some nextDueDateString))"

definition make_instance :: "'p expense \<Rightarrow> string \<Rightarrow> string \<Rightarrow> 'p expense" where
  "make_instance template uuid nextDueDateString =
     template\<lparr>expense_id := uuid,
               date := Some nextDueDateString,
               frequency := Some ''single'',
               recurringExpenseId := Some (expense_id template),
               lastGeneratedDate := None\<rparr>"

text \<open>
  The \<open>while\<close> loop of one template. It need not end (a negative interval with no end
  condition walks backwards for ever), so it is a partial function: \<open>None\<close> is
  a loop that never returns.
\<close>

partial_function (option) gen_loop ::
  "int \<Rightarrow> (nat \<Rightarrow> string) \<Rightarrow> int \<Rightarrow> 'p expense list \<Rightarrow> 'p expense \<Rightarrow>
   jsdate option \<Rightarrow> 'p expense \<Rightarrow> 'p expense list \<Rightarrow> nat \<Rightarrow>
   ('p expense \<times> 'p expense list \<times> nat) option" where
  "gen_loop tz randomUUID today expenses template nextDue updatedTemplate newExps n =
     (case nextDue of
        Some (Some nd) \<Rightarrow>
          if nd \<le> today then
            if date_break template nd then Some (updatedTemplate, newExps, n)
            else if count_break template (totalGenerated expenses newExps template)
              then Some (updatedTemplate, newExps, n)
            else
              gen_loop tz randomUUID today expenses template
                (calculateNextDueDate tz template (Some nd))
                (updatedTemplate\<lparr>lastGeneratedDate := Some (toYYYYMMDD nd)\<rparr>)
                (if instanceExists expenses newExps template (toYYYYMMDD nd) then newExps
                 else newExps @ [make_instance template (randomUUID n) (toYYYYMMDD nd)])
                (if instanceExists expenses newExps template (toYYYYMMDD nd) then n
                 else n + 1)
          else Some (updatedTemplate, newExps, n)
      | _ \<Rightarrow> Some (updatedTemplate, newExps, n))"

definition first_due :: "int \<Rightarrow> 'p expense \<Rightarrow> jsdate option" where
  "first_due tz template =
     (let cursorDateString =
            (if truthy_str (lastGeneratedDate template) then the (lastGeneratedDate template)
             else the (date template));
          cursor = parseDate tz cursorDateString
      in if \<not> truthy_str (lastGeneratedDate template)
         then Some (parseDate tz (the (date template)))
         else calculateNextDueDate tz template cursor)"

definition process_template ::
  "int \<Rightarrow> (nat \<Rightarrow> string) \<Rightarrow> int \<Rightarrow> 'p expense list \<Rightarrow> 'p expense \<Rightarrow>
   'p gen_state \<Rightarrow> 'p gen_state option" where
  "process_template tz randomUUID today expenses template st =
     (if \<not> truthy_str (date template) then Some (st\<lparr>warnings := warnings st @ [template]\<rparr>)
      else
        (case gen_loop tz randomUUID today expenses template (first_due tz template)
                template (newExpenses st) (uuidsDrawn st) of
           None \<Rightarrow> None
         | Some (updatedTemplate, newExps, n) \<Rightarrow>
             Some (st\<lparr>newExpenses := newExps,
                      templatesToUpdate :=
                        (if truthy_str (lastGeneratedDate updatedTemplate) \<and>
                            lastGeneratedDate updatedTemplate \<noteq> lastGeneratedDate template
                         then templatesToUpdate st @ [updatedTemplate]
                         else templatesToUpdate st),
                      uuidsDrawn := n\<rparr>)))"

fun forEach_template ::
  "int \<Rightarrow> (nat \<Rightarrow> string) \<Rightarrow> int \<Rightarrow> 'p expense list \<Rightarrow> 'p expense list \<Rightarrow>
   'p gen_state \<Rightarrow> 'p gen_state option" where
  "forEach_template tz randomUUID today expenses [] st = Some st"
| "forEach_template tz randomUUID today expenses (template # rest) st =
     (case process_template tz randomUUID today expenses template st of
        None \<Rightarrow> None
      | Some st' \<Rightarrow> forEach_template tz randomUUID today expenses rest st')"

definition generate ::
  "int \<Rightarrow> (nat \<Rightarrow> string) \<Rightarrow> int \<Rightarrow> 'p expense list \<Rightarrow> 'p expense list \<Rightarrow>
   'p gen_state option" where
  "generate tz randomUUID today recurringExpenses expenses =
     forEach_template tz randomUUID today expenses recurringExpenses
       \<lparr>newExpenses = [], templatesToUpdate = [], uuidsDrawn = 0, warnings = []\<rparr>"

text \<open>The two state setters at the end of the effect.\<close>

definition setExpenses_new :: "'p expense list \<Rightarrow> 'p expense list \<Rightarrow> 'p expense list" where
  "setExpenses_new newExps prev = (if newExps \<noteq> [] then newExps @ prev else prev)"

definition setRecurringExpenses_updated ::
  "'p expense list \<Rightarrow> 'p expense list \<Rightarrow> 'p expense list" where
  "setRecurringExpenses_updated upd prev =
     (if upd \<noteq> []
      then map (\<lambda>t. case find (\<lambda>ut. expense_id ut = expense_id t) upd of
                      Some ut \<Rightarrow> ut | None \<Rightarrow> t) prev
      else prev)"

text \<open>
  When the loop of a template is left: the guard fails (no next date, an invalid one, or
  one after today) or one of the two \<open>break\<close> conditions holds.
\<close>

definition loop_stops ::
  "int \<Rightarrow> 'p expense list \<Rightarrow> 'p expense \<Rightarrow> jsdate option \<Rightarrow> 'p expense list \<Rightarrow> bool" where
  "loop_stops today expenses template nextDue newExps =
     (case nextDue of
        Some (Some nd) \<Rightarrow>
          \<not> nd \<le> today \<or> date_break template nd \<or>
          count_break template (totalGenerated expenses newExps template)
      | _ \<Rightarrow> True)"

definition due_now :: "int \<Rightarrow> jsdate option \<Rightarrow> bool" where
  "due_now today nextDue = (case nextDue of Some (Some nd) \<Rightarrow> nd \<le> today | _ \<Rightarrow> False)"

section \<open>The active-template filter of the list screen\<close>

definition time_gt :: "jsdate \<Rightarrow> jsdate \<Rightarrow> bool" where
  "time_gt a b = (case (a, b) of (Some x, Some y) \<Rightarrow> x > y | _ \<Rightarrow> False)"

definition time_le :: "jsdate \<Rightarrow> jsdate \<Rightarrow> bool" where
  "time_le a b = (case (a, b) of (Some x, Some y) \<Rightarrow> x \<le> y | _ \<Rightarrow> False)"

definition isActive :: "int \<Rightarrow> 'p expense list \<Rightarrow> 'p expense \<Rightarrow> bool" where
  "isActive tz expenses template =
     (if frequency template \<noteq> Some ''recurring'' then False
      else if \<not> truthy_str (recurrenceEndType template) \<or>
              recurrenceEndType template = Some ''forever'' then True
      else if recurrenceEndType template = Some ''count'' then
        (if \<not> truthy_num (recurrenceCount template) \<or> the (recurrenceCount template) \<le> 0
         then True
         else int (length (filter (references template) expenses))
                < the (recurrenceCount template))
      else if recurrenceEndType template = Some ''date'' then
        (case parseLocalYYYYMMDD tz (recurrenceEndDate template) of
           None \<Rightarrow> True
         | Some endDate \<Rightarrow>
            (case parseLocalYYYYMMDD tz
                    (if truthy_str (lastGeneratedDate template)
                     then lastGeneratedDate template else date template) of
               None \<Rightarrow> True
             | Some lastDate \<Rightarrow>
                 if time_gt lastDate endDate then False
                 else (case calculateNextDueDate tz template lastDate of
                         None \<Rightarrow> False
                       | Some nextDueDate \<Rightarrow> time_le nextDueDate endDate)))
      else True)"

definition activeRecurringExpenses ::
  "int \<Rightarrow> 'p expense list \<Rightarrow> 'p expense list \<Rightarrow> 'p expense list" where
  "activeRecurringExpenses tz recurringExps expenses =
     filter (isActive tz expenses) recurringExps"

section \<open>The edit form\<close>

text \<open>
  The two persisted collections, and the data the form submits: an expense with its
  \<open>id\<close>, or one without (then the \<open>expense_id\<close> of the record is not read).
\<close>

record 'p app_state =
  app_expenses :: "'p expense list"
  app_recurringExpenses :: "'p expense list"

datatype 'p form_data = WithId "'p expense" | WithoutId "'p expense"

fun form_expense :: "'p form_data \<Rightarrow> 'p expense" where
  "form_expense (WithId d) = d"
| "form_expense (WithoutId d) = d"

fun has_id :: "'p form_data \<Rightarrow> bool" where
  "has_id (WithId d) = True"
| "has_id (WithoutId d) = False"

definition addExpense :: "string \<Rightarrow> 'p expense \<Rightarrow> 'p app_state \<Rightarrow> 'p app_state" where
  "addExpense uuid newExpense st =
     st\<lparr>app_expenses := newExpense\<lparr>expense_id := uuid\<rparr> # app_expenses st\<rparr>"

definition addRecurringExpense :: "string \<Rightarrow> 'p expense \<Rightarrow> 'p app_state \<Rightarrow> 'p app_state" where
  "addRecurringExpense uuid newExpenseData st =
     st\<lparr>app_recurringExpenses := newExpenseData\<lparr>expense_id := uuid\<rparr> # app_recurringExpenses st\<rparr>"

definition updateExpense :: "'p expense \<Rightarrow> 'p app_state \<Rightarrow> 'p app_state" where
  "updateExpense updatedExpense st =
     st\<lparr>app_expenses :=
          map (\<lambda>e. if expense_id e = expense_id updatedExpense then updatedExpense else e)
            (app_expenses st)\<rparr>"

definition updateRecurringExpense :: "'p expense \<Rightarrow> 'p app_state \<Rightarrow> 'p app_state" where
  "updateRecurringExpense updatedTemplate st =
     st\<lparr>app_recurringExpenses :=
          map (\<lambda>e. if expense_id e = expense_id updatedTemplate then updatedTemplate else e)
            (app_recurringExpenses st)\<rparr>"

definition is_conversion :: "'p expense option \<Rightarrow> 'p form_data \<Rightarrow> bool" where
  "is_conversion editingRecurringExpense data =
     (case editingRecurringExpense of
        None \<Rightarrow> False
      | Some editing \<Rightarrow>
          has_id data \<and> expense_id (form_expense data) = expense_id editing \<and>
          frequency (form_expense data) \<noteq> Some ''recurring'')"

definition newSingleExpenseData :: "'p expense \<Rightarrow> 'p expense" where
  "newSingleExpenseData data =
     data\<lparr>frequency := Some ''single'',
          recurrence := None,
          monthlyRecurrenceType := None,
          recurrenceInterval := None,
          recurrenceDays := None,
          recurrenceEndType := None,
          recurrenceEndDate := None,
          recurrenceCount := None,
          recurringExpenseId := None,
          lastGeneratedDate := None\<rparr>"

definition handleFormSubmit ::
  "string \<Rightarrow> 'p expense option \<Rightarrow> 'p form_data \<Rightarrow> 'p app_state \<Rightarrow> 'p app_state" where
  "handleFormSubmit uuid editingRecurringExpense data st =
     (if is_conversion editingRecurringExpense data then
        addExpense uuid (newSingleExpenseData (form_expense data))
          (st\<lparr>app_recurringExpenses :=
                filter (\<lambda>e. expense_id e \<noteq> expense_id (the editingRecurringExpense))
                  (app_recurringExpenses st)\<rparr>)
      else if frequency (form_expense data) = Some ''recurring'' then
        (if has_id data then updateRecurringExpense (form_expense data) st
         else addRecurringExpense uuid (form_expense data) st)
      else
        (if has_id data then updateExpense (form_expense data) st
         else addExpense uuid (form_expense data) st))"

section \<open>Auxiliary notions for the statements\<close>

text \<open>The body of one loop iteration, as it changes the queue and the draw counter.\<close>

definition loop_step ::
  "(nat \<Rightarrow> string) \<Rightarrow> 'p expense list \<Rightarrow> 'p expense \<Rightarrow> int \<Rightarrow> 'p expense list \<Rightarrow> nat \<Rightarrow>
   'p expense list \<times> nat" where
  "loop_step randomUUID expenses template nd newExps n =
     (if instanceExists expenses newExps template (toYYYYMMDD nd) then (newExps, n)
      else (newExps @ [make_instance template (randomUUID n) (toYYYYMMDD nd)], n + 1))"

text \<open>What a pass hands to the two setters, without the diagnostics.\<close>

definition delta_of :: "'p gen_state \<Rightarrow> 'p expense list \<times> 'p expense list \<times> nat" where
  "delta_of st = (newExpenses st, templatesToUpdate st, uuidsDrawn st)"

text \<open>The number of records of a list that point back to the template with a given id.\<close>

definition instances_of :: "string \<Rightarrow> 'p expense list \<Rightarrow> nat" where
  "instances_of tid es = length (filter (\<lambda>e. recurringExpenseId e = Some tid) es)"

text \<open>
  The due dates the loop of a template walks through, counted from the one it starts
  with: each is \<open>calculateNextDueDate\<close> of the one before, and after an absent or
  invalid date there is none.
\<close>

fun occurrence :: "int \<Rightarrow> 'p expense \<Rightarrow> jsdate option \<Rightarrow> nat \<Rightarrow> jsdate option" where
  "occurrence tz template nextDue 0 = nextDue"
| "occurrence tz template nextDue (Suc k) =
     (case occurrence tz template nextDue k of
        Some (Some nd) \<Rightarrow> calculateNextDueDate tz template (Some nd)
      | _ \<Rightarrow> None)"

text \<open>
  Every queued instance was made from a template of a given set, with the identifier of
  its own draw, for one of the due dates of that template: the date is counted from the
  template's first due date, it and all the due dates before it are not after today, it
  passed the date check, and neither the expense collection nor the queue in front of
  the instance had a record of that template with that date string.
\<close>

definition made_from ::
  "int \<Rightarrow> (nat \<Rightarrow> string) \<Rightarrow> int \<Rightarrow> 'p expense list \<Rightarrow> 'p expense set \<Rightarrow>
   'p expense list \<Rightarrow> bool" where
  "made_from tz randomUUID today expenses S newExps =
     (\<forall>i < length newExps. \<exists>t \<in> S. \<exists>k nd.
         occurrence tz t (first_due tz t) k = Some (Some nd) \<and>
         (\<forall>j \<le> k. due_now today (occurrence tz t (first_due tz t) j)) \<and>
         newExps ! i = make_instance t (randomUUID i) (toYYYYMMDD nd) \<and>
         nd \<le> today \<and> \<not> date_break t nd \<and>
         \<not> instanceExists expenses (take i newExps) t (toYYYYMMDD nd))"

text \<open>The cursor of a template is the date of an expense that points back to it.\<close>

definition cursor_backed :: "'p expense list \<Rightarrow> 'p expense \<Rightarrow> bool" where
  "cursor_backed es t =
     (truthy_str (lastGeneratedDate t) \<and>
      (\<exists>e \<in> set es. references t e \<and> date e = lastGeneratedDate t))"

text \<open>
  A time value is a local midnight when the local clock shows 00:00:00.000 and the time
  value is in the range of \<open>Date\<close>. A template is regular in a zone when its interval
  is not negative and its first due date, read in UTC, is in the year 100 or later (an
  earlier year does not survive \<open>new Date\<close>, which reads the years 0 to 99 as 1900 to
  1999).
\<close>

definition local_midnight :: "int \<Rightarrow> int \<Rightarrow> bool" where
  "local_midnight tz tv =
     (LocalTime tz tv mod msPerDay = 0 \<and> \<bar>tv\<bar> \<le> 8640000000000000)"

definition regular :: "int \<Rightarrow> 'p expense \<Rightarrow> bool" where
  "regular tz t =
     ((case recurrenceInterval t of None \<Rightarrow> True | Some i \<Rightarrow> 0 \<le> i) \<and>
      (case first_due tz t of Some (Some nd) \<Rightarrow> 100 \<le> YearFromTime nd | _ \<Rightarrow> True))"

text \<open>
  A template is settled for a day, an expense collection and a queue when processing it
  does nothing: it has no date, or its loop is left before the first round.
\<close>

definition settled ::
  "int \<Rightarrow> int \<Rightarrow> 'p expense list \<Rightarrow> 'p expense list \<Rightarrow> 'p expense \<Rightarrow> bool" where
  "settled tz today expenses newExps t =
     (\<not> truthy_str (date t) \<or> loop_stops today expenses t (first_due tz t) newExps)"

text \<open>
  Successive passes: each one runs the effect with its own stream of identifiers and its
  own \<open>today\<close>, and the two setters store what it returns.
\<close>

fun passes ::
  "int \<Rightarrow> ((nat \<Rightarrow> string) \<times> int) list \<Rightarrow> 'p expense list \<Rightarrow> 'p expense list \<Rightarrow>
   ('p expense list \<times> 'p expense list) option" where
  "passes tz [] recurringExps expenses = Some (recurringExps, expenses)"
| "passes tz ((randomUUID, today) # later) recurringExps expenses =
     (case generate tz randomUUID today recurringExps expenses of
        None \<Rightarrow> None
      | Some st \<Rightarrow>
          passes tz later
            (setRecurringExpenses_updated (templatesToUpdate st) recurringExps)
            (setExpenses_new (newExpenses st) expenses))"

section \<open>Example data\<close>

definition blank :: "unit expense" where
  "blank =
     \<lparr>expense_id = ''t1'', date = Some ''2024-01-01'', frequency = Some ''recurring'',
      recurrence = Some ''daily'', monthlyRecurrenceType = None,
      recurrenceInterval = Some 1, recurrenceDays = None, recurrenceEndType = None,
      recurrenceEndDate = None, recurrenceCount = None, recurringExpenseId = None,
      lastGeneratedDate = None, payload = ()\<rparr>"

definition uuids :: "nat \<Rightarrow> string" where
  "uuids k = CHR ''u'' # replicate k CHR ''i''"

declare gen_loop.simps [code]

lemma gen_loop_rule:
  assumes run: "gen_loop tz u today E t nextDue ut new n = Some (ut', new', n')"
    and init: "I nextDue ut new n"
    and step: "\<And>nd ut new n. I (Some (Some nd)) ut new n \<Longrightarrow> nd \<le> today \<Longrightarrow>
        \<not> date_break t nd \<Longrightarrow> \<not> count_break t (totalGenerated E new t) \<Longrightarrow>
        I (calculateNextDueDate tz t (Some nd))
          (ut\<lparr>lastGeneratedDate := Some (toYYYYMMDD nd)\<rparr>)
          (fst (loop_step u E t nd new n)) (snd (loop_step u E t nd new n))"
  shows "\<exists>nextDue'. I nextDue' ut' new' n' \<and> loop_stops today E t nextDue' new'"
proof -
  let ?P = "\<lambda>tz' u' today' E' t' nextDue ut new n r.
     tz' = tz \<longrightarrow> u' = u \<longrightarrow> today' = today \<longrightarrow> E' = E \<longrightarrow> t' = t \<longrightarrow> I nextDue ut new n \<longrightarrow>
        (\<exists>nextDue'. I nextDue' (fst r) (fst (snd r)) (snd (snd r)) \<and>
            loop_stops today E t nextDue' (fst (snd r)))"
  have "?P tz u today E t nextDue ut new n (ut', new', n')"
  proof (rule gen_loop.raw_induct[where P = ?P, OF _ run], intro impI, goal_cases)
    case (1 gl tz' u' today' E' t' nextDue ut new n r)
    note IH = 1(1) and body = 1(2) and I0 = 1(8)
    show ?case
    proof (cases "due_now today nextDue \<and> \<not> loop_stops today E t nextDue new")
      case False
      then have "loop_stops today E t nextDue new"
        by (auto simp: due_now_def loop_stops_def split: option.splits)
      moreover from this body 1(3-7) have "r = (ut, new, n)"
        by (auto simp: loop_stops_def split: option.splits if_splits)
      ultimately show ?thesis using I0 by auto
    next
      case True
      then obtain nd where nd: "nextDue = Some (Some nd)" "nd \<le> today" "\<not> date_break t nd"
          "\<not> count_break t (totalGenerated E new t)"
        by (auto simp: due_now_def loop_stops_def split: option.splits)
      from body 1(3-7) nd have rec: "gl tz u today E t (calculateNextDueDate tz t (Some nd))
                (ut\<lparr>lastGeneratedDate := Some (toYYYYMMDD nd)\<rparr>)
                (fst (loop_step u E t nd new n)) (snd (loop_step u E t nd new n)) = Some r"
        by (cases "instanceExists E new t (toYYYYMMDD nd)") (simp_all add: loop_step_def)
      from step[OF I0[unfolded nd(1)] nd(2-4)] IH[OF rec] show ?thesis by simp
    qed
  qed
  with init show ?thesis by simp
qed

lemma forEach_rule:
  assumes "forEach_template tz u today E ts st = Some st'"
    and "J st"
    and "\<And>t s s'. t \<in> set ts \<Longrightarrow> J s \<Longrightarrow> process_template tz u today E t s = Some s' \<Longrightarrow> J s'"
  shows "J st'"
  using assms
proof (induction ts arbitrary: st)
  case Nil
  then show ?case by simp
next
  case (Cons t ts)
  from Cons.prems(1) obtain s1 where s1: "process_template tz u today E t st = Some s1"
      and rest: "forEach_template tz u today E ts s1 = Some st'"
    by (auto split: option.splits)
  have "J s1" using Cons.prems(3)[OF _ Cons.prems(2) s1] by simp
  show ?case
  proof (rule Cons.IH[OF rest \<open>J s1\<close>])
    fix t' s s'
    assume "t' \<in> set ts" "J s" "process_template tz u today E t' s = Some s'"
    then show "J s'" using Cons.prems(3)[of t' s s'] by simp
  qed
qed

text \<open>The queue only grows, and the pending template differs from the template in its cursor only.\<close>

lemma gen_loop_shape:
  assumes "gen_loop tz u today E t nextDue ut new n = Some (ut', new', n')"
  shows "(\<exists>added. new' = new @ added \<and> (\<forall>e \<in> set added. references t e)) \<and>
         (\<exists>x. ut' = ut\<lparr>lastGeneratedDate := x\<rparr>)"
proof -
  let ?I = "\<lambda>(nx :: jsdate option) ut1 new1 (n1 :: nat).
      (\<exists>added. new1 = new @ added \<and> (\<forall>e \<in> set added. references t e)) \<and>
      (\<exists>x. ut1 = ut\<lparr>lastGeneratedDate := x\<rparr>)"
  have "\<exists>nextDue'. ?I nextDue' ut' new' n' \<and> loop_stops today E t nextDue' new'"
  proof (rule gen_loop_rule[where I = ?I, OF assms])
    show "?I nextDue ut new n"
      by (auto intro: exI[of _ "lastGeneratedDate ut"])
  next
    fix nd ut1 new1 n1
    assume "?I (Some (Some nd)) ut1 new1 n1"
    then show "?I (calculateNextDueDate tz t (Some nd))
          (ut1\<lparr>lastGeneratedDate := Some (toYYYYMMDD nd)\<rparr>)
          (fst (loop_step u E t nd new1 n1)) (snd (loop_step u E t nd new1 n1))"
      by (auto simp: loop_step_def references_def make_instance_def)
  qed
  then show ?thesis by blast
qed

section \<open>A template without a start date\<close>

lemma forEach_append:
  "forEach_template tz u today E (xs @ ys) st =
     (case forEach_template tz u today E xs st of
        None \<Rightarrow> None
      | Some s \<Rightarrow> forEach_template tz u today E ys s)"
  by (induction xs arbitrary: st) (auto split: option.splits)

lemma process_template_delta:
  assumes "delta_of s = delta_of s'"
  shows "map_option delta_of (process_template tz u today E t s) =
         map_option delta_of (process_template tz u today E t s')"
  using assms
  by (auto simp: process_template_def delta_of_def split: option.splits)

lemma forEach_delta:
  assumes "delta_of s = delta_of s'"
  shows "map_option delta_of (forEach_template tz u today E ts s) =
         map_option delta_of (forEach_template tz u today E ts s')"
  using assms
proof (induction ts arbitrary: s s')
  case Nil
  then show ?case by simp
next
  case (Cons t ts)
  from process_template_delta[OF Cons.prems, of tz u today E t]
  show ?case
    by (cases "process_template tz u today E t s"; cases "process_template tz u today E t s'")
       (auto intro: Cons.IH)
qed

lemma process_template_no_date:
  assumes "\<not> truthy_str (date t)"
  shows "process_template tz u today E t st = Some (st\<lparr>warnings := warnings st @ [t]\<rparr>)"
  using assms by (simp add: process_template_def)

text \<open>
  Claim C9. A template whose \<open>date\<close> is absent (or empty) is skipped: processing it
  returns, changes nothing but the list of diagnostics, and the pass hands the setters
  the same new instances, the same updated templates and the same identifiers as the
  pass over the templates without it.
\<close>

theorem missing_date_skipped:
  assumes "\<not> truthy_str (date t)"
  shows "process_template tz u today E t st = Some (st\<lparr>warnings := warnings st @ [t]\<rparr>) \<and>
         map_option delta_of (generate tz u today (before @ t # rest) E) =
         map_option delta_of (generate tz u today (before @ rest) E)"
proof
  show "process_template tz u today E t st = Some (st\<lparr>warnings := warnings st @ [t]\<rparr>)"
    by (rule process_template_no_date[OF assms])
next
  let ?init = "\<lparr>newExpenses = [], templatesToUpdate = [], uuidsDrawn = 0, warnings = []\<rparr>
               :: 'a gen_state"
  show "map_option delta_of (generate tz u today (before @ t # rest) E) =
         map_option delta_of (generate tz u today (before @ rest) E)"
  proof (cases "forEach_template tz u today E before ?init")
    case None
    then show ?thesis by (simp add: generate_def forEach_append)
  next
    case (Some s1)
    have "delta_of (s1\<lparr>warnings := warnings s1 @ [t]\<rparr>) = delta_of s1"
      by (simp add: delta_of_def)
    from forEach_delta[OF this] Some show ?thesis
      by (simp add: generate_def forEach_append process_template_no_date[OF assms])
  qed
qed

theorem missing_date_skipped_witness:
  "\<not> truthy_str (date (blank\<lparr>date := None\<rparr>)) \<and>
   process_template 0 uuids 1704326400000 [] (blank\<lparr>date := None\<rparr>)
     \<lparr>newExpenses = [], templatesToUpdate = [], uuidsDrawn = 0, warnings = []\<rparr> =
   Some \<lparr>newExpenses = [], templatesToUpdate = [], uuidsDrawn = 0,
         warnings = [blank\<lparr>date := None\<rparr>]\<rparr> \<and>
   map_option delta_of (generate 0 uuids 1704326400000 [blank\<lparr>date := None\<rparr>, blank] []) =
   map_option delta_of (generate 0 uuids 1704326400000 [blank] [])"
proof -
  have h: "\<not> truthy_str (date (blank\<lparr>date := None\<rparr>))"
    by (simp add: truthy_str_def)
  from missing_date_skipped[OF h, where tz = 0 and u = uuids and today = 1704326400000
      and E = "[]" and before = "[]" and rest = "[blank]"
      and st = "\<lparr>newExpenses = [], templatesToUpdate = [], uuidsDrawn = 0, warnings = []\<rparr>"]
  show ?thesis using h by simp
qed

section \<open>Converting a template into a single expense\<close>

text \<open>
  Claim C7. When the form that edits a template submits the record with the template's id
  and a frequency other than \<open>recurring\<close>, every template with that id leaves the
  template collection and the others stay as they are, in order; the expense collection
  is the old one with one record put in front, and that record carries the identifier
  drawn from \<open>crypto.randomUUID\<close>, the frequency \<open>single\<close>, none of the recurrence
  fields, no back-reference, and the submitted date and payload.
\<close>

theorem convert_to_single:
  assumes "editing = Some tmpl"
    and "data = WithId d"
    and "expense_id d = expense_id tmpl"
    and "frequency d \<noteq> Some ''recurring''"
  shows "app_recurringExpenses (handleFormSubmit uuid editing data st) =
           filter (\<lambda>e. expense_id e \<noteq> expense_id tmpl) (app_recurringExpenses st) \<and>
         (\<exists>x. app_expenses (handleFormSubmit uuid editing data st) = x # app_expenses st \<and>
              expense_id x = uuid \<and> frequency x = Some ''single'' \<and>
              recurrence x = None \<and> recurrenceInterval x = None \<and>
              recurrenceEndType x = None \<and> recurrenceEndDate x = None \<and>
              recurrenceCount x = None \<and> lastGeneratedDate x = None \<and>
              recurringExpenseId x = None \<and> monthlyRecurrenceType x = None \<and>
              recurrenceDays x = None \<and> date x = date d \<and> payload x = payload d)"
  using assms
  by (simp add: handleFormSubmit_def is_conversion_def addExpense_def newSingleExpenseData_def)

theorem convert_to_single_witness:
  "handleFormSubmit ''fresh'' (Some blank) (WithId (blank\<lparr>frequency := Some ''single''\<rparr>))
     \<lparr>app_expenses = [blank\<lparr>expense_id := ''e1'', recurringExpenseId := Some ''t1''\<rparr>],
      app_recurringExpenses = [blank, blank\<lparr>expense_id := ''t2''\<rparr>]\<rparr> =
   \<lparr>app_expenses =
      [blank\<lparr>expense_id := ''fresh'', frequency := Some ''single'', recurrence := None,
             recurrenceInterval := None\<rparr>,
       blank\<lparr>expense_id := ''e1'', recurringExpenseId := Some ''t1''\<rparr>],
    app_recurringExpenses = [blank\<lparr>expense_id := ''t2''\<rparr>]\<rparr>"
proof -
  let ?st = "\<lparr>app_expenses = [blank\<lparr>expense_id := ''e1'', recurringExpenseId := Some ''t1''\<rparr>],
      app_recurringExpenses = [blank, blank\<lparr>expense_id := ''t2''\<rparr>]\<rparr>"
  let ?d = "blank\<lparr>frequency := Some ''single''\<rparr>"
  have h: "expense_id ?d = expense_id blank" "frequency ?d \<noteq> Some ''recurring''"
    by simp_all
  from convert_to_single[OF refl refl h, of "''fresh''" ?st]
  obtain x where x: "app_expenses (handleFormSubmit ''fresh'' (Some blank) (WithId ?d) ?st)
        = x # app_expenses ?st" "expense_id x = ''fresh''"
    and r: "app_recurringExpenses (handleFormSubmit ''fresh'' (Some blank) (WithId ?d) ?st) =
           filter (\<lambda>e. expense_id e \<noteq> expense_id blank) (app_recurringExpenses ?st)"
    by blast
  have "x = blank\<lparr>expense_id := ''fresh'', frequency := Some ''single'', recurrence := None,
             recurrenceInterval := None\<rparr>"
    using x(1)
    by (simp add: handleFormSubmit_def is_conversion_def addExpense_def
        newSingleExpenseData_def blank_def)
  with x r show ?thesis
    by (simp add: handleFormSubmit_def is_conversion_def addExpense_def blank_def)
qed

section \<open>Where queued instances come from\<close>

lemma gen_loop_made_from:
  assumes run: "gen_loop tz u today E t nextDue ut new n = Some (ut', new', n')"
    and "length new = n" "made_from tz u today E S new" "t \<in> S"
    and start: "\<exists>k. nextDue = occurrence tz t (first_due tz t) k \<and>
                    (\<forall>j < k. due_now today (occurrence tz t (first_due tz t) j))"
  shows "length new' = n' \<and> made_from tz u today E S new'"
proof -
  let ?occ = "occurrence tz t (first_due tz t)"
  let ?I = "\<lambda>(nx :: jsdate option) (ut1 :: 'a expense) new1 n1.
              length new1 = n1 \<and> made_from tz u today E S new1 \<and>
              (\<exists>k. nx = ?occ k \<and> (\<forall>j < k. due_now today (?occ j)))"
  have "\<exists>nextDue'. ?I nextDue' ut' new' n' \<and> loop_stops today E t nextDue' new'"
  proof (rule gen_loop_rule[where I = ?I, OF run])
    show "?I nextDue ut new n" using assms by simp
  next
    fix nd ut1 new1 n1
    assume I: "?I (Some (Some nd)) ut1 new1 n1" and le: "nd \<le> today"
      and nb: "\<not> date_break t nd"
    from I obtain k where k: "?occ k = Some (Some nd)" "\<forall>j < k. due_now today (?occ j)"
      by metis
    from k le have due: "\<forall>j \<le> k. due_now today (?occ j)"
      by (auto simp: due_now_def le_less)
    have nxt: "\<exists>k'. calculateNextDueDate tz t (Some nd) = ?occ k' \<and>
                 (\<forall>j < k'. due_now today (?occ j))"
      by (rule exI[of _ "Suc k"]) (use k due in \<open>auto simp: less_Suc_eq_le\<close>)
    show "?I (calculateNextDueDate tz t (Some nd))
          (ut1\<lparr>lastGeneratedDate := Some (toYYYYMMDD nd)\<rparr>)
          (fst (loop_step u E t nd new1 n1)) (snd (loop_step u E t nd new1 n1))"
    proof (cases "instanceExists E new1 t (toYYYYMMDD nd)")
      case True
      with I nxt show ?thesis by (simp add: loop_step_def)
    next
      case False
      let ?new = "new1 @ [make_instance t (u n1) (toYYYYMMDD nd)]"
      have "made_from tz u today E S ?new"
        unfolding made_from_def
      proof (intro allI impI)
        fix i assume "i < length ?new"
        then consider "i < length new1" | "i = length new1" by fastforce
        then show "\<exists>t' \<in> S. \<exists>k' nd'.
            occurrence tz t' (first_due tz t') k' = Some (Some nd') \<and>
            (\<forall>j \<le> k'. due_now today (occurrence tz t' (first_due tz t') j)) \<and>
            ?new ! i = make_instance t' (u i) (toYYYYMMDD nd') \<and> nd' \<le> today \<and>
            \<not> date_break t' nd' \<and>
            \<not> instanceExists E (take i ?new) t' (toYYYYMMDD nd')"
        proof cases
          case 1
          with I show ?thesis by (simp add: made_from_def nth_append)
        next
          case 2
          with I have e: "?new ! i = make_instance t (u i) (toYYYYMMDD nd)"
              "take i ?new = new1"
            by (simp_all add: nth_append)
          show ?thesis
            by (rule bexI[of _ t], rule exI[of _ k], rule exI[of _ nd])
               (use e k(1) due le nb False \<open>t \<in> S\<close> in simp_all)
        qed
      qed
      with False I nxt show ?thesis by (simp add: loop_step_def)
    qed
  qed
  then show ?thesis by blast
qed

lemma process_template_made_from:
  assumes "process_template tz u today E t st = Some st'"
    and "length (newExpenses st) = uuidsDrawn st" "made_from tz u today E S (newExpenses st)"
      "t \<in> S"
  shows "length (newExpenses st') = uuidsDrawn st' \<and> made_from tz u today E S (newExpenses st')"
proof (cases "truthy_str (date t)")
  case False
  with assms show ?thesis by (auto simp: process_template_def)
next
  case True
  with assms(1) obtain ut' new' n' where
    run: "gen_loop tz u today E t (first_due tz t) t (newExpenses st) (uuidsDrawn st) =
            Some (ut', new', n')"
    and st': "newExpenses st' = new'" "uuidsDrawn st' = n'"
    by (auto simp: process_template_def split: option.splits)
  have start: "\<exists>k. first_due tz t = occurrence tz t (first_due tz t) k \<and>
                    (\<forall>j < k. due_now today (occurrence tz t (first_due tz t) j))"
    by (rule exI[of _ 0]) simp
  from gen_loop_made_from[OF run assms(2-4) start] st' show ?thesis by simp
qed

lemma generate_made_from:
  assumes "generate tz u today T E = Some st"
  shows "length (newExpenses st) = uuidsDrawn st \<and>
         made_from tz u today E (set T) (newExpenses st)"
proof -
  let ?J = "\<lambda>s. length (newExpenses s) = uuidsDrawn s \<and>
                made_from tz u today E (set T) (newExpenses s)"
  show ?thesis
  proof (rule forEach_rule[where J = ?J, OF assms[unfolded generate_def]])
    show "?J \<lparr>newExpenses = [], templatesToUpdate = [], uuidsDrawn = 0, warnings = []\<rparr>"
      by (simp add: made_from_def)
  next
    fix t s s'
    assume "t \<in> set T" "?J s" "process_template tz u today E t s = Some s'"
    then show "?J s'" using process_template_made_from[of tz u today E t s s' "set T"] by simp
  qed
qed

section \<open>The fields of a materialized instance\<close>

text \<open>
  Claim C2, as the code has it. The i-th instance a pass queues is made from one of the
  templates for one of its due dates: the date is the k-th one counted from the first
  due date of the template, it and the due dates before it are not after today, and no
  expense and no instance queued earlier in the pass points back to the template with
  that date string. The id of the instance is the i-th identifier drawn, its date is the
  date string of that due date, its frequency is \<open>single\<close>, it points back to
  the template, and its \<open>lastGeneratedDate\<close> is cleared. Every other field, the
  recurrence fields among them, is the template's.
\<close>

theorem instance_fields:
  assumes "generate tz u today T E = Some st"
    and "i < length (newExpenses st)"
  shows "length (newExpenses st) = uuidsDrawn st \<and>
         (\<exists>t \<in> set T. \<exists>k nd.
            occurrence tz t (first_due tz t) k = Some (Some nd) \<and>
            (\<forall>j \<le> k. due_now today (occurrence tz t (first_due tz t) j)) \<and>
            \<not> instanceExists E (take i (newExpenses st)) t (toYYYYMMDD nd) \<and>
            nd \<le> today \<and>
            expense_id (newExpenses st ! i) = u i \<and>
            date (newExpenses st ! i) = Some (toYYYYMMDD nd) \<and>
            frequency (newExpenses st ! i) = Some ''single'' \<and>
            recurringExpenseId (newExpenses st ! i) = Some (expense_id t) \<and>
            lastGeneratedDate (newExpenses st ! i) = None \<and>
            recurrence (newExpenses st ! i) = recurrence t \<and>
            recurrenceInterval (newExpenses st ! i) = recurrenceInterval t \<and>
            recurrenceEndType (newExpenses st ! i) = recurrenceEndType t \<and>
            recurrenceEndDate (newExpenses st ! i) = recurrenceEndDate t \<and>
            recurrenceCount (newExpenses st ! i) = recurrenceCount t \<and>
            monthlyRecurrenceType (newExpenses st ! i) = monthlyRecurrenceType t \<and>
            recurrenceDays (newExpenses st ! i) = recurrenceDays t \<and>
            payload (newExpenses st ! i) = payload t)"
proof -
  from generate_made_from[OF assms(1)]
  have len: "length (newExpenses st) = uuidsDrawn st"
    and mf: "made_from tz u today E (set T) (newExpenses st)" by simp_all
  from mf assms(2) obtain t k nd where t: "t \<in> set T"
    and o: "occurrence tz t (first_due tz t) k = Some (Some nd)"
      "\<forall>j \<le> k. due_now today (occurrence tz t (first_due tz t) j)"
      "\<not> instanceExists E (take i (newExpenses st)) t (toYYYYMMDD nd)" "nd \<le> today"
    and m: "newExpenses st ! i = make_instance t (u i) (toYYYYMMDD nd)"
    unfolding made_from_def by blast
  have "\<exists>k nd. occurrence tz t (first_due tz t) k = Some (Some nd) \<and>
            (\<forall>j \<le> k. due_now today (occurrence tz t (first_due tz t) j)) \<and>
            \<not> instanceExists E (take i (newExpenses st)) t (toYYYYMMDD nd) \<and>
            nd \<le> today \<and>
            expense_id (newExpenses st ! i) = u i \<and>
            date (newExpenses st ! i) = Some (toYYYYMMDD nd) \<and>
            frequency (newExpenses st ! i) = Some ''single'' \<and>
            recurringExpenseId (newExpenses st ! i) = Some (expense_id t) \<and>
            lastGeneratedDate (newExpenses st ! i) = None \<and>
            recurrence (newExpenses st ! i) = recurrence t \<and>
            recurrenceInterval (newExpenses st ! i) = recurrenceInterval t \<and>
            recurrenceEndType (newExpenses st ! i) = recurrenceEndType t \<and>
            recurrenceEndDate (newExpenses st ! i) = recurrenceEndDate t \<and>
            recurrenceCount (newExpenses st ! i) = recurrenceCount t \<and>
            monthlyRecurrenceType (newExpenses st ! i) = monthlyRecurrenceType t \<and>
            recurrenceDays (newExpenses st ! i) = recurrenceDays t \<and>
            payload (newExpenses st ! i) = payload t"
    by (rule exI[of _ k], rule exI[of _ nd]) (use o in \<open>simp add: m make_instance_def\<close>)
  with len t show ?thesis by blast
qed

theorem instance_fields_witness:
  "generate 0 uuids 1704153600000 [blank] [] =
     Some \<lparr>newExpenses = [make_instance blank ''u'' ''2024-01-01'',
                          make_instance blank ''ui'' ''2024-01-02''],
           templatesToUpdate = [blank\<lparr>lastGeneratedDate := Some ''2024-01-02''\<rparr>],
           uuidsDrawn = 2, warnings = []\<rparr> \<and>
   occurrence 0 blank (first_due 0 blank) 1 = Some (Some 1704153600000) \<and>
   toYYYYMMDD 1704153600000 = ''2024-01-02'' \<and>
   date (make_instance blank ''ui'' ''2024-01-02'') = Some ''2024-01-02'' \<and>
   \<not> instanceExists [] [make_instance blank ''u'' ''2024-01-01''] blank ''2024-01-02'' \<and>
   frequency (make_instance blank ''ui'' ''2024-01-02'') = Some ''single'' \<and>
   recurrence (make_instance blank ''ui'' ''2024-01-02'') = Some ''daily''"
proof -
  let ?st = "\<lparr>newExpenses = [make_instance blank ''u'' ''2024-01-01'',
                          make_instance blank ''ui'' ''2024-01-02''],
           templatesToUpdate = [blank\<lparr>lastGeneratedDate := Some ''2024-01-02''\<rparr>],
           uuidsDrawn = 2, warnings = []\<rparr>"
  have g: "generate 0 uuids 1704153600000 [blank] [] = Some ?st"
    by code_simp
  have o: "occurrence 0 blank (first_due 0 blank) 1 = Some (Some 1704153600000)"
    by code_simp
  have p: "toYYYYMMDD 1704153600000 = ''2024-01-02''"
    by code_simp
  have i: "1 < length (newExpenses ?st)" by simp
  from instance_fields[OF g i] obtain nd where
    d: "date (newExpenses ?st ! 1) = Some (toYYYYMMDD nd)"
    and f: "\<not> instanceExists [] (take 1 (newExpenses ?st)) blank (toYYYYMMDD nd)"
    by auto
  from d have "toYYYYMMDD nd = ''2024-01-02''"
    by (simp add: make_instance_def)
  with f have "\<not> instanceExists [] [make_instance blank ''u'' ''2024-01-01''] blank ''2024-01-02''"
    by simp
  with g o p show ?thesis
    by (simp add: make_instance_def blank_def)
qed

text \<open>
  The claim as written fails: the instance made from a daily template still says
  \<open>daily\<close> with interval 1.
\<close>

theorem instance_keeps_recurrence_counterexample:
  "map_option (map recurrence \<circ> newExpenses) (generate 0 uuids 1704067200000 [blank] []) =
     Some [Some ''daily''] \<and>
   map_option (map recurrenceInterval \<circ> newExpenses)
     (generate 0 uuids 1704067200000 [blank] []) = Some [Some 1]"
  by code_simp

section \<open>The date bound\<close>

text \<open>
  Claim C4. Every instance a pass queues is made from one of the templates, and when
  that template has the end rule \<open>date\<close> with a non-empty \<open>recurrenceEndDate\<close> \<open>D\<close>,
  the date string of the instance is not greater than \<open>D\<close>.
\<close>

theorem date_bound:
  assumes "generate tz u today T E = Some st"
    and "e \<in> set (newExpenses st)"
  shows "\<exists>t \<in> set T. \<exists>k s. e = make_instance t (u k) s \<and> date e = Some s \<and>
           references t e \<and>
           (\<forall>D. recurrenceEndType t = Some ''date'' \<longrightarrow> recurrenceEndDate t = Some D \<longrightarrow>
                D \<noteq> [] \<longrightarrow> \<not> D < s)"
proof -
  from generate_made_from[OF assms(1)]
  have mf: "made_from tz u today E (set T) (newExpenses st)" by simp
  from assms(2) obtain i where i: "i < length (newExpenses st)" "e = newExpenses st ! i"
    by (auto simp: in_set_conv_nth)
  with mf obtain t nd where t: "t \<in> set T" "\<not> date_break t nd"
    "e = make_instance t (u i) (toYYYYMMDD nd)"
    unfolding made_from_def by blast
  have "\<not> D < toYYYYMMDD nd"
    if "recurrenceEndType t = Some ''date''" "recurrenceEndDate t = Some D" "D \<noteq> []" for D
    using t(2) that by (simp add: date_break_def truthy_str_def)
  with t show ?thesis
    by (intro bexI[of _ t] exI[of _ i] exI[of _ "toYYYYMMDD nd"])
       (auto simp: make_instance_def references_def)
qed


theorem date_bound_witness:
  "generate 0 uuids 1706745600000
     [blank\<lparr>recurrence := Some ''weekly'', recurrenceEndType := Some ''date'',
            recurrenceEndDate := Some ''2024-01-10''\<rparr>] [] =
   Some \<lparr>newExpenses =
           [make_instance (blank\<lparr>recurrence := Some ''weekly'', recurrenceEndType := Some ''date'',
              recurrenceEndDate := Some ''2024-01-10''\<rparr>) ''u'' ''2024-01-01'',
            make_instance (blank\<lparr>recurrence := Some ''weekly'', recurrenceEndType := Some ''date'',
              recurrenceEndDate := Some ''2024-01-10''\<rparr>) ''ui'' ''2024-01-08''],
         templatesToUpdate =
           [blank\<lparr>recurrence := Some ''weekly'', recurrenceEndType := Some ''date'',
              recurrenceEndDate := Some ''2024-01-10'',
              lastGeneratedDate := Some ''2024-01-08''\<rparr>],
         uuidsDrawn = 2, warnings = []\<rparr> \<and>
   \<not> ''2024-01-10'' < ''2024-01-08''"
proof -
  let ?t = "blank\<lparr>recurrence := Some ''weekly'', recurrenceEndType := Some ''date'',
            recurrenceEndDate := Some ''2024-01-10''\<rparr>"
  let ?st = "\<lparr>newExpenses = [make_instance ?t ''u'' ''2024-01-01'',
                             make_instance ?t ''ui'' ''2024-01-08''],
         templatesToUpdate = [?t\<lparr>lastGeneratedDate := Some ''2024-01-08''\<rparr>],
         uuidsDrawn = 2, warnings = []\<rparr>"
  have g: "generate 0 uuids 1706745600000 [?t] [] = Some ?st"
    by code_simp
  have m: "make_instance ?t ''ui'' ''2024-01-08'' \<in> set (newExpenses ?st)"
    by simp
  from date_bound[OF g m] obtain k s where
    "make_instance ?t ''ui'' ''2024-01-08'' = make_instance ?t (uuids k) s"
    "\<forall>D. recurrenceEndType ?t = Some ''date'' \<longrightarrow> recurrenceEndDate ?t = Some D \<longrightarrow>
                D \<noteq> [] \<longrightarrow> \<not> D < s"
    by auto
  then have "\<not> ''2024-01-10'' < ''2024-01-08''"
    by (auto simp: make_instance_def blank_def)
  with g show ?thesis by simp
qed

section \<open>The count bound\<close>

lemma instances_of_append:
  "instances_of x (xs @ ys) = instances_of x xs + instances_of x ys"
  by (simp add: instances_of_def)

lemma totalGenerated_instances_of:
  "totalGenerated E new t = instances_of (expense_id t) E + instances_of (expense_id t) new"
  by (simp add: totalGenerated_def instances_of_def references_def[abs_def])

lemma instances_of_others:
  assumes "\<forall>e \<in> set added. references t e" "expense_id t \<noteq> x"
  shows "instances_of x added = 0"
  using assms by (auto simp: instances_of_def references_def filter_empty_conv)

lemma gen_loop_count:
  assumes run: "gen_loop tz u today E t nextDue ut new n = Some (ut', new', n')"
    and rule: "recurrenceEndType t = Some ''count''" "recurrenceCount t = Some N" "1 \<le> N"
    and start: "int (totalGenerated E new t) \<le> N"
  shows "int (totalGenerated E new' t) \<le> N"
proof -
  let ?I = "\<lambda>(nx :: jsdate option) (ut1 :: 'a expense) new1 (n1 :: nat).
              int (totalGenerated E new1 t) \<le> N"
  have "\<exists>nextDue'. ?I nextDue' ut' new' n' \<and> loop_stops today E t nextDue' new'"
  proof (rule gen_loop_rule[where I = ?I, OF run])
    show "?I nextDue ut new n" by (rule start)
  next
    fix nd ut1 new1 n1
    assume "\<not> count_break t (totalGenerated E new1 t)"
    with rule have "int (totalGenerated E new1 t) < N"
      by (simp add: count_break_def truthy_num_def)
    then show "?I (calculateNextDueDate tz t (Some nd))
          (ut1\<lparr>lastGeneratedDate := Some (toYYYYMMDD nd)\<rparr>)
          (fst (loop_step u E t nd new1 n1)) (snd (loop_step u E t nd new1 n1))"
      by (simp add: loop_step_def totalGenerated_def)
  qed
  then show ?thesis by blast
qed

lemma process_template_count:
  assumes run: "process_template tz u today E t st = Some st'"
    and N: "1 \<le> N"
    and rule: "expense_id t = x \<longrightarrow>
               recurrenceEndType t = Some ''count'' \<and> recurrenceCount t = Some N"
    and start: "int (instances_of x E + instances_of x (newExpenses st)) \<le> N"
  shows "int (instances_of x E + instances_of x (newExpenses st')) \<le> N"
proof (cases "truthy_str (date t)")
  case False
  with run start show ?thesis by (auto simp: process_template_def)
next
  case True
  with run obtain ut' new' n' where
    loop: "gen_loop tz u today E t (first_due tz t) t (newExpenses st) (uuidsDrawn st) =
            Some (ut', new', n')"
    and st': "newExpenses st' = new'"
    by (auto simp: process_template_def split: option.splits)
  show ?thesis
  proof (cases "expense_id t = x")
    case True
    with rule start gen_loop_count[OF loop _ _ N] st' show ?thesis
      by (simp add: totalGenerated_instances_of)
  next
    case False
    from gen_loop_shape[OF loop] obtain added where
      "new' = newExpenses st @ added" "\<forall>e \<in> set added. references t e" by blast
    with instances_of_others[OF this(2) False] start st' show ?thesis
      by (simp add: instances_of_append)
  qed
qed

lemma generate_count:
  assumes gen: "generate tz u today T E = Some st"
    and N: "1 \<le> N"
    and rule: "\<forall>t \<in> set T. expense_id t = x \<longrightarrow>
                 recurrenceEndType t = Some ''count'' \<and> recurrenceCount t = Some N"
    and start: "int (instances_of x E) \<le> N"
  shows "int (instances_of x (setExpenses_new (newExpenses st) E)) \<le> N"
proof -
  let ?J = "\<lambda>s. int (instances_of x E + instances_of x (newExpenses s)) \<le> N"
  have "?J st"
  proof (rule forEach_rule[where J = ?J, OF gen[unfolded generate_def]])
    show "?J \<lparr>newExpenses = [], templatesToUpdate = [], uuidsDrawn = 0, warnings = []\<rparr>"
      using start by (simp add: instances_of_def)
  next
    fix t s s'
    assume "t \<in> set T" "?J s" "process_template tz u today E t s = Some s'"
    with rule show "?J s'" using process_template_count[of tz u today E t s s' N x] N by blast
  qed
  then show ?thesis
    by (simp add: setExpenses_new_def instances_of_append add.commute)
qed

lemma process_template_updated_origin:
  assumes "process_template tz u today E t st = Some st'"
    and "ut \<in> set (templatesToUpdate st')"
  shows "ut \<in> set (templatesToUpdate st) \<or> (\<exists>x. ut = t\<lparr>lastGeneratedDate := x\<rparr>)"
proof (cases "truthy_str (date t)")
  case False
  with assms show ?thesis by (auto simp: process_template_def)
next
  case True
  with assms(1) obtain ut' new' n' where
    loop: "gen_loop tz u today E t (first_due tz t) t (newExpenses st) (uuidsDrawn st) =
            Some (ut', new', n')"
    and st': "templatesToUpdate st' = templatesToUpdate st \<or>
              templatesToUpdate st' = templatesToUpdate st @ [ut']"
    by (auto simp: process_template_def split: option.splits if_splits)
  from gen_loop_shape[OF loop] obtain x where "ut' = t\<lparr>lastGeneratedDate := x\<rparr>" by blast
  with st' assms(2) show ?thesis by auto
qed

lemma generate_updated_origin:
  assumes gen: "generate tz u today T E = Some st"
    and "ut \<in> set (templatesToUpdate st)"
  shows "\<exists>t \<in> set T. \<exists>x. ut = t\<lparr>lastGeneratedDate := x\<rparr>"
proof -
  let ?J = "\<lambda>s. \<forall>ut \<in> set (templatesToUpdate s). \<exists>t \<in> set T. \<exists>x. ut = t\<lparr>lastGeneratedDate := x\<rparr>"
  have "?J st"
  proof (rule forEach_rule[where J = ?J, OF gen[unfolded generate_def]])
    show "?J \<lparr>newExpenses = [], templatesToUpdate = [], uuidsDrawn = 0, warnings = []\<rparr>"
      by simp
  next
    fix t s s'
    assume "t \<in> set T" "?J s" "process_template tz u today E t s = Some s'"
    then show "?J s'" using process_template_updated_origin[of tz u today E t s s'] by blast
  qed
  with assms(2) show ?thesis by blast
qed

lemma find_Some_member:
  "find P xs = Some x \<Longrightarrow> x \<in> set xs \<and> P x"
  by (induction xs) (auto split: if_splits)

lemma setRecurringExpenses_updated_set:
  assumes "t' \<in> set (setRecurringExpenses_updated upd T)"
  shows "t' \<in> set T \<or> (t' \<in> set upd \<and> (\<exists>t \<in> set T. expense_id t' = expense_id t))"
  using assms
  by (auto simp: setRecurringExpenses_updated_def split: if_splits option.splits
      dest!: find_Some_member)


text \<open>
  Claim C3, as the code has it. Let every template that carries the id \<open>x\<close> have the end
  rule \<open>count\<close> with a count \<open>N\<close> of at least 1. If at most \<open>N\<close> expenses point back
  to \<open>x\<close> before, then at most \<open>N\<close> do after any number of passes, whatever their
  streams of identifiers and their days.
\<close>

theorem count_bound:
  assumes "passes tz ps T E = Some (T', E')"
    and "1 \<le> N"
    and "\<forall>t \<in> set T. expense_id t = x \<longrightarrow>
           recurrenceEndType t = Some ''count'' \<and> recurrenceCount t = Some N"
    and "int (instances_of x E) \<le> N"
  shows "int (instances_of x E') \<le> N"
  using assms
proof (induction ps arbitrary: T E)
  case Nil
  then show ?case by simp
next
  case (Cons p ps)
  obtain u today where p: "p = (u, today)" by (cases p)
  from Cons.prems(1) p obtain st where gen: "generate tz u today T E = Some st"
    and later: "passes tz ps (setRecurringExpenses_updated (templatesToUpdate st) T)
                  (setExpenses_new (newExpenses st) E) = Some (T', E')"
    by (auto split: option.splits)
  have rule': "\<forall>t \<in> set (setRecurringExpenses_updated (templatesToUpdate st) T).
      expense_id t = x \<longrightarrow> recurrenceEndType t = Some ''count'' \<and> recurrenceCount t = Some N"
  proof (intro ballI impI)
    fix t' assume t': "t' \<in> set (setRecurringExpenses_updated (templatesToUpdate st) T)"
      and id: "expense_id t' = x"
    from setRecurringExpenses_updated_set[OF t']
    consider "t' \<in> set T" | "t' \<in> set (templatesToUpdate st)" by blast
    then show "recurrenceEndType t' = Some ''count'' \<and> recurrenceCount t' = Some N"
    proof cases
      case 1
      with Cons.prems(3) id show ?thesis by blast
    next
      case 2
      from generate_updated_origin[OF gen 2] obtain t y where
        "t \<in> set T" "t' = t\<lparr>lastGeneratedDate := y\<rparr>" by blast
      with Cons.prems(3) id show ?thesis by auto
    qed
  qed
  from Cons.IH[OF later Cons.prems(2) rule'
      generate_count[OF gen Cons.prems(2) Cons.prems(3) Cons.prems(4)]]
  show ?case .
qed

theorem count_bound_witness:
  "passes 0 [(uuids, 1735689600000), (uuids, 1735689600000)]
     [blank\<lparr>recurrence := Some ''monthly'', recurrenceEndType := Some ''count'',
            recurrenceCount := Some 2\<rparr>] [] =
   Some ([blank\<lparr>recurrence := Some ''monthly'', recurrenceEndType := Some ''count'',
                recurrenceCount := Some 2, lastGeneratedDate := Some ''2024-02-01''\<rparr>],
         [make_instance (blank\<lparr>recurrence := Some ''monthly'',
             recurrenceEndType := Some ''count'', recurrenceCount := Some 2\<rparr>) ''u'' ''2024-01-01'',
          make_instance (blank\<lparr>recurrence := Some ''monthly'',
             recurrenceEndType := Some ''count'', recurrenceCount := Some 2\<rparr>) ''ui'' ''2024-02-01'']) \<and>
   int (instances_of ''t1''
     [make_instance (blank\<lparr>recurrence := Some ''monthly'',
         recurrenceEndType := Some ''count'', recurrenceCount := Some 2\<rparr>) ''u'' ''2024-01-01'',
      make_instance (blank\<lparr>recurrence := Some ''monthly'',
         recurrenceEndType := Some ''count'', recurrenceCount := Some 2\<rparr>) ''ui'' ''2024-02-01''])
     \<le> 2"
proof -
  let ?t = "blank\<lparr>recurrence := Some ''monthly'', recurrenceEndType := Some ''count'',
            recurrenceCount := Some 2\<rparr>"
  let ?E' = "[make_instance ?t ''u'' ''2024-01-01'', make_instance ?t ''ui'' ''2024-02-01'']"
  have p: "passes 0 [(uuids, 1735689600000), (uuids, 1735689600000)] [?t] [] =
           Some ([?t\<lparr>lastGeneratedDate := Some ''2024-02-01''\<rparr>], ?E')"
    by code_simp
  have r: "\<forall>t \<in> set [?t]. expense_id t = ''t1'' \<longrightarrow>
           recurrenceEndType t = Some ''count'' \<and> recurrenceCount t = Some 2"
    by simp
  have s: "int (instances_of ''t1'' ([] :: unit expense list)) \<le> 2"
    by (simp add: instances_of_def)
  have n: "(1::int) \<le> 2" by simp
  from count_bound[OF p n r s] p show ?thesis by simp
qed

text \<open>
  The claim as written fails for \<open>N = 0\<close>: the count check is guarded by the truthiness
  of \<open>recurrenceCount\<close>, so a count of 0 does not bound anything.
\<close>

theorem count_zero_counterexample:
  "map_option (instances_of ''t1'' \<circ> newExpenses)
     (generate 0 uuids 1704326400000
        [blank\<lparr>recurrenceEndType := Some ''count'', recurrenceCount := Some 0\<rparr>] []) = Some 4"
  by code_simp

section \<open>The cursor and the instances\<close>

lemma gen_loop_cursor:
  assumes run: "gen_loop tz u today E t nextDue ut new n = Some (ut', new', n')"
  shows "ut' = ut \<or>
         (\<exists>s. lastGeneratedDate ut' = Some s \<and> s \<noteq> [] \<and> instanceExists E new' t s)"
proof -
  let ?I = "\<lambda>(nx :: jsdate option) ut1 new1 (n1 :: nat).
      (\<exists>added. new1 = new @ added) \<and>
      (ut1 = ut \<or>
       (\<exists>s. lastGeneratedDate ut1 = Some s \<and> s \<noteq> [] \<and> instanceExists E new1 t s))"
  have "\<exists>nextDue'. ?I nextDue' ut' new' n' \<and> loop_stops today E t nextDue' new'"
  proof (rule gen_loop_rule[where I = ?I, OF run])
    show "?I nextDue ut new n" by simp
  next
    fix nd ut1 new1 n1
    assume "?I (Some (Some nd)) ut1 new1 n1"
    then obtain added where "new1 = new @ added" by blast
    moreover have "instanceExists E (fst (loop_step u E t nd new1 n1)) t (toYYYYMMDD nd)"
      by (auto simp: loop_step_def instanceExists_def references_def make_instance_def)
    moreover have "toYYYYMMDD nd \<noteq> []" by (simp add: toYYYYMMDD_def)
    ultimately show "?I (calculateNextDueDate tz t (Some nd))
          (ut1\<lparr>lastGeneratedDate := Some (toYYYYMMDD nd)\<rparr>)
          (fst (loop_step u E t nd new1 n1)) (snd (loop_step u E t nd new1 n1))"
      by (auto simp: loop_step_def)
  qed
  then show ?thesis by blast
qed

lemma process_template_cursor:
  assumes run: "process_template tz u today E t st = Some st'"
    and J: "\<forall>ut \<in> set (templatesToUpdate st). cursor_backed (newExpenses st @ E) ut"
  shows "\<forall>ut \<in> set (templatesToUpdate st'). cursor_backed (newExpenses st' @ E) ut"
proof (cases "truthy_str (date t)")
  case False
  with run J show ?thesis by (auto simp: process_template_def)
next
  case True
  with run obtain ut' new' n' where
    loop: "gen_loop tz u today E t (first_due tz t) t (newExpenses st) (uuidsDrawn st) =
            Some (ut', new', n')"
    and st': "newExpenses st' = new'"
      "templatesToUpdate st' =
         (if truthy_str (lastGeneratedDate ut') \<and> lastGeneratedDate ut' \<noteq> lastGeneratedDate t
          then templatesToUpdate st @ [ut'] else templatesToUpdate st)"
    by (auto simp: process_template_def split: option.splits)
  from gen_loop_shape[OF loop] obtain added x where
    grow: "new' = newExpenses st @ added" and ut': "ut' = t\<lparr>lastGeneratedDate := x\<rparr>"
    by blast
  have old: "cursor_backed (new' @ E) ut" if "ut \<in> set (templatesToUpdate st)" for ut
    using J that grow by (auto simp: cursor_backed_def)
  have new: "cursor_backed (new' @ E) ut'"
    if "truthy_str (lastGeneratedDate ut')" "lastGeneratedDate ut' \<noteq> lastGeneratedDate t"
  proof -
    from that(2) have "ut' \<noteq> t" by auto
    with gen_loop_cursor[OF loop] obtain s where
      "lastGeneratedDate ut' = Some s" "instanceExists E new' t s" by blast
    with that(1) ut' show ?thesis
      by (auto simp: cursor_backed_def instanceExists_def references_def)
  qed
  from old new st' show ?thesis by auto
qed

text \<open>
  Claim C5, as the code has it. After a pass, a template of the stored collection is
  either one of the templates as it was before the pass, or it has a cursor that is the
  date of an expense pointing back to it in the stored expense collection.
\<close>

theorem cursor_consistency:
  assumes "generate tz u today T E = Some st"
    and "t' \<in> set (setRecurringExpenses_updated (templatesToUpdate st) T)"
  shows "t' \<in> set T \<or> cursor_backed (setExpenses_new (newExpenses st) E) t'"
proof -
  let ?J = "\<lambda>s. \<forall>ut \<in> set (templatesToUpdate s). cursor_backed (newExpenses s @ E) ut"
  have "?J st"
  proof (rule forEach_rule[where J = ?J, OF assms(1)[unfolded generate_def]])
    show "?J \<lparr>newExpenses = [], templatesToUpdate = [], uuidsDrawn = 0, warnings = []\<rparr>"
      by simp
  next
    fix t s s'
    assume "t \<in> set T" "?J s" "process_template tz u today E t s = Some s'"
    then show "?J s'" using process_template_cursor[of tz u today E t s s'] by blast
  qed
  moreover have "setExpenses_new (newExpenses st) E = newExpenses st @ E"
    by (simp add: setExpenses_new_def)
  ultimately show ?thesis
    using setRecurringExpenses_updated_set[OF assms(2)] by auto
qed

theorem cursor_consistency_witness:
  "generate 0 uuids 1704067200000 [blank] [] =
     Some \<lparr>newExpenses = [make_instance blank ''u'' ''2024-01-01''],
           templatesToUpdate = [blank\<lparr>lastGeneratedDate := Some ''2024-01-01''\<rparr>],
           uuidsDrawn = 1, warnings = []\<rparr> \<and>
   cursor_backed [make_instance blank ''u'' ''2024-01-01'']
     (blank\<lparr>lastGeneratedDate := Some ''2024-01-01''\<rparr>)"
proof -
  let ?st = "\<lparr>newExpenses = [make_instance blank ''u'' ''2024-01-01''],
           templatesToUpdate = [blank\<lparr>lastGeneratedDate := Some ''2024-01-01''\<rparr>],
           uuidsDrawn = 1, warnings = []\<rparr>"
  have g: "generate 0 uuids 1704067200000 [blank] [] = Some ?st"
    by code_simp
  have m: "blank\<lparr>lastGeneratedDate := Some ''2024-01-01''\<rparr>
           \<in> set (setRecurringExpenses_updated (templatesToUpdate ?st) [blank])"
    by (simp add: setRecurringExpenses_updated_def)
  have n: "blank\<lparr>lastGeneratedDate := Some ''2024-01-01''\<rparr> \<notin> set [blank]"
    by (simp add: blank_def)
  from cursor_consistency[OF g m] n g show ?thesis
    by (simp add: setExpenses_new_def)
qed

text \<open>
  The claim as written fails when the user has deleted the instances: the pass leaves the
  cursor of the template in place although no expense carries that date.
\<close>

theorem cursor_without_instance_counterexample:
  "passes 0 [(uuids, 1704326400000)] [blank\<lparr>lastGeneratedDate := Some ''2024-01-04''\<rparr>] [] =
     Some ([blank\<lparr>lastGeneratedDate := Some ''2024-01-04''\<rparr>], [])"
  by code_simp

section \<open>Scenario A and the time zone\<close>

text \<open>
  In a zone at UTC, Scenario A comes out as the specification says: four instances,
  dated 2024-01-01 to 2024-01-04, and the cursor at 2024-01-04.
\<close>

lemma scenario_A_utc:
  "generate 0 uuids 1704326400000 [blank] [] =
     Some \<lparr>newExpenses =
             [make_instance blank ''u'' ''2024-01-01'', make_instance blank ''ui'' ''2024-01-02'',
              make_instance blank ''uii'' ''2024-01-03'', make_instance blank ''uiii'' ''2024-01-04''],
           templatesToUpdate = [blank\<lparr>lastGeneratedDate := Some ''2024-01-04''\<rparr>],
           uuidsDrawn = 4, warnings = []\<rparr>"
  by code_simp

text \<open>
  Claim C6 at a zone one hour east of UTC, where local midnight of 2024-01-04 is
  2024-01-03T23:00Z: \<open>parseDate\<close> builds local midnights and \<open>toYYYYMMDD\<close> prints
  their UTC day, so every instance and the cursor are dated one day early.
\<close>

theorem scenario_A_east_of_utc:
  "parseDate 60 ''2024-01-04'' = Some 1704322800000 \<and>
   generate 60 uuids 1704322800000 [blank] [] =
     Some \<lparr>newExpenses =
             [make_instance blank ''u'' ''2023-12-31'', make_instance blank ''ui'' ''2024-01-01'',
              make_instance blank ''uii'' ''2024-01-02'', make_instance blank ''uiii'' ''2024-01-03''],
           templatesToUpdate = [blank\<lparr>lastGeneratedDate := Some ''2024-01-03''\<rparr>],
           uuidsDrawn = 4, warnings = []\<rparr>"
  by code_simp

text \<open>
  Claim C1 at the same zone, for a weekly template and today = local midnight of
  2024-01-07: the first pass queues the instance of 2024-01-01 under the date
  2023-12-31 and stores that string as the cursor; the second pass, on the stored
  collections and the same day, reads the cursor back as local 2023-12-31, finds the
  occurrence of local 2024-01-07 due, and queues it under the date 2024-01-06.
\<close>

theorem second_pass_east_of_utc:
  "parseDate 60 ''2024-01-07'' = Some 1704582000000 \<and>
   generate 60 uuids 1704582000000 [blank\<lparr>recurrence := Some ''weekly''\<rparr>] [] =
     Some \<lparr>newExpenses =
             [make_instance (blank\<lparr>recurrence := Some ''weekly''\<rparr>) ''u'' ''2023-12-31''],
           templatesToUpdate =
             [blank\<lparr>recurrence := Some ''weekly'', lastGeneratedDate := Some ''2023-12-31''\<rparr>],
           uuidsDrawn = 1, warnings = []\<rparr> \<and>
   generate 60 uuids 1704582000000
     (setRecurringExpenses_updated
        [blank\<lparr>recurrence := Some ''weekly'', lastGeneratedDate := Some ''2023-12-31''\<rparr>]
        [blank\<lparr>recurrence := Some ''weekly''\<rparr>])
     (setExpenses_new
        [make_instance (blank\<lparr>recurrence := Some ''weekly''\<rparr>) ''u'' ''2023-12-31''] []) =
     Some \<lparr>newExpenses =
             [make_instance
                (blank\<lparr>recurrence := Some ''weekly'', lastGeneratedDate := Some ''2023-12-31''\<rparr>)
                ''u'' ''2024-01-06''],
           templatesToUpdate =
             [blank\<lparr>recurrence := Some ''weekly'', lastGeneratedDate := Some ''2024-01-06''\<rparr>],
           uuidsDrawn = 1, warnings = []\<rparr>"
  by code_simp

section \<open>Calendar arithmetic\<close>

lemma div_mod_succ_int:
  fixes x k :: int
  assumes "0 < k"
  shows "(x + 1) div k = (if x mod k + 1 = k then x div k + 1 else x div k)"
    and "(x + 1) mod k = (if x mod k + 1 = k then 0 else x mod k + 1)"
proof -
  have dm: "(k * q + r) div k = q \<and> (k * q + r) mod k = r" if "0 \<le> r" "r < k" for q r
    using that by (simp add: div_pos_pos_trivial mod_pos_pos_trivial)
  have r: "0 \<le> x mod k" "x mod k < k" using assms by simp_all
  have e: "x = k * (x div k) + x mod k" by simp
  have "(x + 1) div k = (if x mod k + 1 = k then x div k + 1 else x div k) \<and>
        (x + 1) mod k = (if x mod k + 1 = k then 0 else x mod k + 1)"
  proof (cases "x mod k + 1 = k")
    case True
    from e True have "x + 1 = k * (x div k) + k" by linarith
    then have "x + 1 = k * (x div k + 1)" by (simp add: algebra_simps)
    then have "(x + 1) div k = x div k + 1" "(x + 1) mod k = 0"
      using assms by simp_all
    with True show ?thesis by simp
  next
    case False
    with r have "0 \<le> x mod k + 1" "x mod k + 1 < k" by simp_all
    from dm[OF this, of "x div k"]
    have "(x + 1) div k = x div k" "(x + 1) mod k = x mod k + 1" by simp_all
    with False show ?thesis by simp
  qed
  then show "(x + 1) div k = (if x mod k + 1 = k then x div k + 1 else x div k)"
    and "(x + 1) mod k = (if x mod k + 1 = k then 0 else x mod k + 1)" by simp_all
qed

lemma div_succ_int:
  fixes x k :: int
  assumes "0 < k"
  shows "(x + 1) div k = x div k + (if (x + 1) mod k = 0 then 1 else 0)"
  using div_mod_succ_int[OF assms, of x] pos_mod_bound[OF assms, of x] pos_mod_sign[OF assms, of x]
  by (auto split: if_splits)

lemma mod_shift_int:
  fixes y k c :: int
  shows "(y - k * c) mod k = y mod k"
proof -
  have "y - k * c = y + k * (- c)" by simp
  then show ?thesis by (simp only: mod_mult_self2)
qed

lemma DayFromYear_succ:
  "DayFromYear (y + 1) = DayFromYear y + 365 + (if InLeapYear y then 1 else 0)"
proof -
  have a: "(y + 1 - 1969) div 4 = (y - 1969) div 4 + (if y mod 4 = 0 then 1 else 0)"
  proof -
    have "(y - 1969 + 1) mod 4 = y mod 4"
      using mod_shift_int[of y 4 492] by simp
    with div_succ_int[of 4 "y - 1969"] show ?thesis by (simp add: algebra_simps)
  qed
  have b: "(y + 1 - 1901) div 100 = (y - 1901) div 100 + (if y mod 100 = 0 then 1 else 0)"
  proof -
    have "(y - 1901 + 1) mod 100 = y mod 100"
      using mod_shift_int[of y 100 19] by simp
    with div_succ_int[of 100 "y - 1901"] show ?thesis by (simp add: algebra_simps)
  qed
  have c: "(y + 1 - 1601) div 400 = (y - 1601) div 400 + (if y mod 400 = 0 then 1 else 0)"
  proof -
    have "(y - 1601 + 1) mod 400 = y mod 400"
      using mod_shift_int[of y 400 4] by simp
    with div_succ_int[of 400 "y - 1601"] show ?thesis by (simp add: algebra_simps)
  qed
  have d: "y mod 4 = 0" if "y mod 100 = 0"
  proof -
    have "y mod 100 mod 4 = y mod 4" by (rule mod_mod_cancel) simp
    with that show ?thesis by simp
  qed
  have e: "y mod 100 = 0" if "y mod 400 = 0"
  proof -
    have "y mod 400 mod 100 = y mod 100" by (rule mod_mod_cancel) simp
    with that show ?thesis by simp
  qed
  show ?thesis
    unfolding DayFromYear_def InLeapYear_def a b c using d e by auto
qed

lemma DayFromYear_add:
  "DayFromYear y + 365 * int k \<le> DayFromYear (y + int k)"
proof (induction k)
  case 0
  then show ?case by simp
next
  case (Suc k)
  have "DayFromYear (y + int (Suc k)) = DayFromYear (y + int k + 1)"
    by (simp add: ac_simps)
  also have "\<dots> \<ge> DayFromYear (y + int k) + 365"
    by (simp add: DayFromYear_succ)
  finally show ?case using Suc by simp
qed

lemma MonthFromDayInYear_range: "0 \<le> MonthFromDayInYear lp d \<and> MonthFromDayInYear lp d \<le> 11"
  by (simp add: MonthFromDayInYear_def Let_def)

lemma MonthFromTime_range: "0 \<le> MonthFromTime t \<and> MonthFromTime t \<le> 11"
  by (simp add: MonthFromTime_def MonthFromDayInYear_range)

lemma MakeDay_civil:
  "MakeDay (YearFromTime t) (MonthFromTime t) (DateFromTime t + k) = Day t + k"
proof -
  have m: "MonthFromTime t div 12 = 0" "MonthFromTime t mod 12 = MonthFromTime t"
    using MonthFromTime_range[of t] by (simp_all add: div_pos_pos_trivial mod_pos_pos_trivial)
  show ?thesis
    by (simp add: MakeDay_def Let_def m DateFromTime_def DayWithinYear_def)
qed

lemma month_start_succ:
  assumes "0 \<le> r" "r < 11"
  shows "month_start lp r + 28 \<le> month_start lp (r + 1)"
proof -
  from assms have "r = 0 \<or> r = 1 \<or> r = 2 \<or> r = 3 \<or> r = 4 \<or> r = 5 \<or> r = 6 \<or>
      r = 7 \<or> r = 8 \<or> r = 9 \<or> r = 10" by presburger
  then show ?thesis by (auto simp: month_start_def)
qed

lemma MakeDay_month_succ: "MakeDay y m d + 28 \<le> MakeDay y (m + 1) d"
proof -
  have r: "0 \<le> m mod 12" "m mod 12 < 12" by simp_all
  show ?thesis
  proof (cases "m mod 12 = 11")
    case True
    then have "(m + 1) mod 12 = 0" "(m + 1) div 12 = m div 12 + 1"
      using div_mod_succ_int[of 12 m] by simp_all
    then show ?thesis using True
      by (simp add: MakeDay_def Let_def month_start_def DayFromYear_succ
          add.assoc[symmetric])
  next
    case False
    then have m1: "(m + 1) mod 12 = m mod 12 + 1" and d1: "(m + 1) div 12 = m div 12"
      using div_mod_succ_int[of 12 m] by simp_all
    from False r have "m mod 12 < 11" by linarith
    from month_start_succ[OF r(1) this, of "InLeapYear (y + m div 12)"] show ?thesis
      by (simp add: MakeDay_def Let_def m1 d1)
  qed
qed

lemma MakeDay_month_add: "MakeDay y m d + 28 * int k \<le> MakeDay y (m + int k) d"
proof (induction k)
  case 0
  then show ?case by simp
next
  case (Suc k)
  have "MakeDay y (m + int (Suc k)) d = MakeDay y (m + int k + 1) d"
    by (simp add: ac_simps)
  also have "\<dots> \<ge> MakeDay y (m + int k) d + 28"
    by (rule MakeDay_month_succ)
  finally show ?case using Suc by simp
qed

lemma month_start_leap: "month_start lp m \<le> month_start lp' m + 1"
  by (simp add: month_start_def)

lemma MakeDay_year_add:
  assumes "0 \<le> m" "m \<le> 11"
  shows "MakeDay y m d + 365 * int k - 1 \<le> MakeDay (y + int k) m d"
proof -
  have m: "m div 12 = 0" "m mod 12 = m"
    using assms by (simp_all add: div_pos_pos_trivial mod_pos_pos_trivial)
  from DayFromYear_add[of y k] month_start_leap[of "InLeapYear y" m "InLeapYear (y + int k)"]
  show ?thesis by (simp add: MakeDay_def Let_def m)
qed


section \<open>The next due date is later\<close>

lemma MakeDate_Day: "MakeDate (Day t + k) (TimeWithinDay t) = t + k * msPerDay"
proof -
  have "t div msPerDay * msPerDay + t mod msPerDay = t" by simp
  then show ?thesis
    by (simp add: MakeDate_def Day_def TimeWithinDay_def algebra_simps)
qed

lemma MakeDate_mono: "d \<le> d' \<Longrightarrow> MakeDate d x \<le> MakeDate d' x"
  by (simp add: MakeDate_def msPerDay_def)

lemma TimeClip_Some: "TimeClip x = Some y \<Longrightarrow> y = x"
  by (simp add: TimeClip_def split: if_splits)

lemma setDate_getDate:
  "setDate tz tv (getDate tz tv + k) = TimeClip (tv + k * msPerDay)"
  by (simp add: setDate_def getDate_def Let_def MakeDay_civil MakeDate_Day
      LocalTime_def UTC_of_def)

lemma setMonth_getMonth:
  assumes "setMonth tz tv (getMonth tz tv + int k) = Some tv'"
  shows "tv + 28 * int k * msPerDay \<le> tv'"
proof -
  let ?t = "LocalTime tz tv"
  have "MakeDay (YearFromTime ?t) (MonthFromTime ?t) (DateFromTime ?t + 0) + 28 * int k
        \<le> MakeDay (YearFromTime ?t) (MonthFromTime ?t + int k) (DateFromTime ?t)"
    using MakeDay_month_add[of "YearFromTime ?t" "MonthFromTime ?t" "DateFromTime ?t" k]
    by simp
  then have "Day ?t + 28 * int k
        \<le> MakeDay (YearFromTime ?t) (MonthFromTime ?t + int k) (DateFromTime ?t)"
    by (simp only: MakeDay_civil)
  from MakeDate_mono[OF this, of "TimeWithinDay ?t"]
  have "?t + 28 * int k * msPerDay
        \<le> MakeDate (MakeDay (YearFromTime ?t) (MonthFromTime ?t + int k) (DateFromTime ?t))
             (TimeWithinDay ?t)"
    by (simp add: MakeDate_Day)
  moreover from TimeClip_Some[OF assms[unfolded setMonth_def Let_def getMonth_def]]
  have "tv' = UTC_of tz (MakeDate (MakeDay (YearFromTime ?t) (MonthFromTime ?t + int k)
                 (DateFromTime ?t)) (TimeWithinDay ?t))" .
  ultimately show ?thesis by (simp add: LocalTime_def UTC_of_def)
qed

lemma setFullYear_getFullYear:
  assumes "setFullYear tz tv (getFullYear tz tv + int k) = Some tv'"
  shows "tv + (365 * int k - 1) * msPerDay \<le> tv'"
proof -
  let ?t = "LocalTime tz tv"
  have "MakeDay (YearFromTime ?t) (MonthFromTime ?t) (DateFromTime ?t + 0) + 365 * int k - 1
        \<le> MakeDay (YearFromTime ?t + int k) (MonthFromTime ?t) (DateFromTime ?t)"
    using MakeDay_year_add[of "MonthFromTime ?t" "YearFromTime ?t" "DateFromTime ?t" k]
      MonthFromTime_range[of ?t]
    by simp
  then have "Day ?t + (365 * int k - 1)
        \<le> MakeDay (YearFromTime ?t + int k) (MonthFromTime ?t) (DateFromTime ?t)"
    by (simp only: MakeDay_civil)
  from MakeDate_mono[OF this, of "TimeWithinDay ?t"]
  have "?t + (365 * int k - 1) * msPerDay
        \<le> MakeDate (MakeDay (YearFromTime ?t + int k) (MonthFromTime ?t) (DateFromTime ?t))
             (TimeWithinDay ?t)"
    by (simp add: MakeDate_Day)
  moreover from TimeClip_Some[OF assms[unfolded setFullYear_def Let_def getFullYear_def]]
  have "tv' = UTC_of tz (MakeDate (MakeDay (YearFromTime ?t + int k) (MonthFromTime ?t)
                 (DateFromTime ?t)) (TimeWithinDay ?t))" .
  ultimately show ?thesis by (simp add: LocalTime_def UTC_of_def)
qed

lemma next_advances:
  assumes ok: "\<forall>i. recurrenceInterval t = Some i \<longrightarrow> 0 \<le> i"
    and nx: "calculateNextDueDate tz t (Some tv) = Some (Some tv')"
  shows "tv < tv'"
proof -
  define iv where "iv = (if truthy_num (recurrenceInterval t)
                         then the (recurrenceInterval t) else 1)"
  have pos: "0 < iv"
    using ok by (auto simp: iv_def truthy_num_def split: option.splits)
  then obtain k where k: "iv = int k" "0 < k"
    by (metis zero_less_imp_eq_int)
  have ms: "0 < msPerDay" by (simp add: msPerDay_def)
  from nx consider
      (daily) "setDate tz tv (getDate tz tv + iv) = Some tv'"
    | (weekly) "setDate tz tv (getDate tz tv + 7 * iv) = Some tv'"
    | (monthly) "setMonth tz tv (getMonth tz tv + iv) = Some tv'"
    | (yearly) "setFullYear tz tv (getFullYear tz tv + iv) = Some tv'"
    by (auto simp: calculateNextDueDate_def Let_def iv_def split: if_splits)
  then show ?thesis
  proof cases
    case daily
    then have "tv' = tv + iv * msPerDay"
      by (simp add: setDate_getDate TimeClip_def split: if_splits)
    with pos ms show ?thesis by simp
  next
    case weekly
    then have "tv' = tv + 7 * iv * msPerDay"
      by (simp add: setDate_getDate TimeClip_def split: if_splits)
    with pos ms show ?thesis by simp
  next
    case monthly
    from setMonth_getMonth[OF monthly[unfolded k(1)]]
    have "tv + 28 * int k * msPerDay \<le> tv'" .
    moreover have "0 < 28 * int k * msPerDay" using k(2) ms by simp
    ultimately show ?thesis by linarith
  next
    case yearly
    from setFullYear_getFullYear[OF yearly[unfolded k(1)]]
    have "tv + (365 * int k - 1) * msPerDay \<le> tv'" .
    moreover have "0 < (365 * int k - 1) * msPerDay" using k(2) ms by simp
    ultimately show ?thesis by linarith
  qed
qed

section \<open>Termination of the loop\<close>

lemma gen_loop_returns:
  assumes ok: "\<forall>i. recurrenceInterval t = Some i \<longrightarrow> 0 \<le> i"
  shows "\<exists>r. gen_loop tz u today E t nextDue ut new n = Some r"
proof (induction "case nextDue of Some (Some nd) \<Rightarrow> nat (today + 1 - nd) | _ \<Rightarrow> 0"
    arbitrary: nextDue ut new n rule: less_induct)
  case less
  show ?case
  proof (cases "due_now today nextDue \<and> \<not> loop_stops today E t nextDue new")
    case False
    then have "gen_loop tz u today E t nextDue ut new n = Some (ut, new, n)"
      by (subst gen_loop.simps)
         (auto simp: due_now_def loop_stops_def split: option.splits)
    then show ?thesis by simp
  next
    case True
    then obtain nd where nd: "nextDue = Some (Some nd)" "nd \<le> today" "\<not> date_break t nd"
        "\<not> count_break t (totalGenerated E new t)"
      by (auto simp: due_now_def loop_stops_def split: option.splits)
    let ?next = "calculateNextDueDate tz t (Some nd)"
    have "(case ?next of Some (Some nd') \<Rightarrow> nat (today + 1 - nd') | _ \<Rightarrow> 0)
          < nat (today + 1 - nd)"
      using next_advances[OF ok, of tz nd] nd(2) by (auto split: option.splits)
    from less[unfolded nd(1), simplified, OF this]
    have "\<exists>r. gen_loop tz u today E t ?next
                (ut\<lparr>lastGeneratedDate := Some (toYYYYMMDD nd)\<rparr>)
                (fst (loop_step u E t nd new n)) (snd (loop_step u E t nd new n)) = Some r"
      by blast
    then show ?thesis
      by (subst gen_loop.simps) (auto simp: nd loop_step_def)
  qed
qed

text \<open>
  Claim C8. For a template whose interval is not negative (absent and 0 mean 1), and so
  for every well-formed one, the loop returns for every starting due date, every day
  and every state: each round moves the due date forward and the loop ends once it has
  passed today.
\<close>

theorem loop_terminates:
  assumes "\<forall>i. recurrenceInterval t = Some i \<longrightarrow> 0 \<le> i"
  shows "(\<exists>r. gen_loop tz u today E t nextDue ut new n = Some r) \<and>
         (\<forall>tv tv'. calculateNextDueDate tz t (Some tv) = Some (Some tv') \<longrightarrow> tv < tv')"
  using gen_loop_returns[OF assms] next_advances[OF assms] by blast


theorem loop_terminates_witness:
  "recurrenceInterval blank = Some 1 \<and>
   (\<exists>r. gen_loop 0 uuids 1704326400000 [] blank (Some (Some 1704067200000)) blank [] 0
          = Some r)"
proof -
  have h: "\<forall>i. recurrenceInterval blank = Some i \<longrightarrow> 0 \<le> i"
    by (simp add: blank_def)
  from loop_terminates[OF h, of 0 uuids 1704326400000 "[]" "Some (Some 1704067200000)" blank "[]" 0]
  show ?thesis by (simp add: blank_def)
qed

lemma generate_returns:
  assumes "\<forall>t \<in> set T. \<forall>i. recurrenceInterval t = Some i \<longrightarrow> 0 \<le> i"
  shows "\<exists>st. forEach_template tz u today E T st0 = Some st"
  using assms
proof (induction T arbitrary: st0)
  case Nil
  then show ?case by simp
next
  case (Cons t T)
  from Cons.prems have ok: "\<forall>i. recurrenceInterval t = Some i \<longrightarrow> 0 \<le> i" by simp
  from gen_loop_returns[OF ok]
  obtain r where "gen_loop tz u today E t (first_due tz t) t (newExpenses st0) (uuidsDrawn st0)
                  = Some r" by blast
  then have "\<exists>s1. process_template tz u today E t st0 = Some s1"
    by (cases r) (simp add: process_template_def)
  then obtain s1 where "process_template tz u today E t st0 = Some s1" ..
  with Cons.IH[of s1] Cons.prems show ?case by auto
qed

section \<open>A date rule without an end date\<close>








section \<open>The year of a day\<close>

lemma DayFromYear_mono:
  assumes "y \<le> y'"
  shows "DayFromYear y \<le> DayFromYear y'"
proof -
  from assms obtain k where "y' = y + int k"
    by (metis zle_iff_zadd)
  with DayFromYear_add[of y k] show ?thesis by simp
qed

lemma DayFromYear_1970: "DayFromYear 1970 = 0"
  by (simp add: DayFromYear_def)

lemma year_search_lower: "DayFromYear (year_search y n) \<le> n"
  by (induction y n rule: year_search.induct) (subst year_search.simps, simp)

lemma year_search_upper:
  "n < DayFromYear (y + 1) \<Longrightarrow> n < DayFromYear (year_search y n + 1)"
proof (induction y n rule: year_search.induct)
  case (1 y n)
  show ?case
  proof (cases "DayFromYear y \<le> n")
    case True
    with 1 show ?thesis by (subst year_search.simps) simp
  next
    case False
    with 1 show ?thesis by (subst year_search.simps) simp
  qed
qed

lemma year_search_le: "year_search y n \<le> y"
proof (induction y n rule: year_search.induct)
  case (1 y n)
  show ?case
  proof (cases "DayFromYear y \<le> n")
    case True
    then show ?thesis by (subst year_search.simps) simp
  next
    case False
    with 1 show ?thesis by (subst year_search.simps) simp
  qed
qed

lemma year_search_ge:
  "L \<le> y \<Longrightarrow> DayFromYear L \<le> n \<Longrightarrow> L \<le> year_search y n"
proof (induction y n rule: year_search.induct)
  case (1 y n)
  show ?case
  proof (cases "DayFromYear y \<le> n")
    case True
    with 1 show ?thesis by (subst year_search.simps) simp
  next
    case False
    with 1(3) have "L \<noteq> y" by auto
    with 1 False show ?thesis by (subst year_search.simps) simp
  qed
qed

lemma year_start_ok: "n < DayFromYear (1970 + max (- 1) (n div 365) + 1)"
proof (cases "0 \<le> n")
  case True
  then have q: "0 \<le> n div 365" by simp
  then obtain k where k: "n div 365 = int k" by (metis zero_le_imp_eq_int)
  have "n = 365 * (n div 365) + n mod 365" by simp
  moreover have "n mod 365 < 365" by simp
  ultimately have "n < 365 * int (Suc k)" using k by simp
  also have "\<dots> \<le> DayFromYear (1970 + int (Suc k))"
    using DayFromYear_add[of 1970 "Suc k"] by (simp add: DayFromYear_1970)
  finally show ?thesis using k q by (simp add: max_def ac_simps)
next
  case False
  then have "n div 365 \<le> - 1" by simp
  then have "max (- 1) (n div 365) = - 1" by simp
  with False show ?thesis by (simp add: DayFromYear_1970)
qed

lemma YearFromDay_bounds:
  "DayFromYear (YearFromDay n) \<le> n" "n < DayFromYear (YearFromDay n + 1)"
  by (simp_all add: YearFromDay_def year_search_lower year_search_upper[OF year_start_ok])

lemma YearFromDay_ge: "DayFromYear L \<le> n \<Longrightarrow> L \<le> 1969 \<Longrightarrow> L \<le> YearFromDay n"
  unfolding YearFromDay_def by (rule year_search_ge) simp_all

lemma YearFromDay_le: "n \<le> 100000000 \<Longrightarrow> YearFromDay n \<le> 275943"
proof -
  assume "n \<le> 100000000"
  then have "n div 365 \<le> 100000000 div 365" by (rule zdiv_mono1) simp
  then have "1970 + max (- 1) (n div 365) \<le> 275943" by simp
  with year_search_le[of "1970 + max (- 1) (n div 365)" n] show ?thesis
    by (simp add: YearFromDay_def)
qed

lemma YearFromDay_mono_100:
  assumes "100 \<le> YearFromDay n" "n \<le> n'"
  shows "100 \<le> YearFromDay n'"
proof -
  have "DayFromYear 100 \<le> DayFromYear (YearFromDay n)"
    by (rule DayFromYear_mono[OF assms(1)])
  also have "\<dots> \<le> n" by (rule YearFromDay_bounds)
  finally have "DayFromYear 100 \<le> n'" using assms(2) by simp
  then show ?thesis by (rule YearFromDay_ge) simp
qed

section \<open>Month and day of the month\<close>

lemma month_day_range:
  assumes "0 \<le> d" "d < 365 + (if lp then 1 else 0)"
  shows "1 \<le> d - month_start lp (MonthFromDayInYear lp d) + 1"
    and "d - month_start lp (MonthFromDayInYear lp d) + 1 \<le> 31"
  using assms by (auto simp: MonthFromDayInYear_def month_start_def Let_def)

lemma DaysInYear_eq: "DayFromYear (y + 1) - DayFromYear y = 365 + (if InLeapYear y then 1 else 0)"
  by (simp add: DayFromYear_succ)

lemma DateFromTime_range: "1 \<le> DateFromTime t \<and> DateFromTime t \<le> 31"
proof -
  let ?y = "YearFromTime t"
  have "0 \<le> DayWithinYear t"
    using YearFromDay_bounds(1)[of "Day t"] by (simp add: DayWithinYear_def YearFromTime_def)
  moreover have "DayWithinYear t < 365 + (if InLeapYear ?y then 1 else 0)"
    using YearFromDay_bounds(2)[of "Day t"] DaysInYear_eq[of ?y]
    by (simp add: DayWithinYear_def YearFromTime_def)
  ultimately show ?thesis
    using month_day_range[of "DayWithinYear t" "InLeapYear ?y"]
    by (simp add: DateFromTime_def MonthFromTime_def)
qed

section \<open>Printing and reading back a date string\<close>

lemma digit_char_values:
  "digit_char 0 = CHR ''0''" "digit_char 1 = CHR ''1''" "digit_char 2 = CHR ''2''"
  "digit_char 3 = CHR ''3''" "digit_char 4 = CHR ''4''" "digit_char 5 = CHR ''5''"
  "digit_char 6 = CHR ''6''" "digit_char 7 = CHR ''7''" "digit_char 8 = CHR ''8''"
  "digit_char 9 = CHR ''9''"
  by code_simp+

lemma digit_cases:
  fixes d :: int
  assumes "0 \<le> d" "d \<le> 9"
  shows "d = 0 \<or> d = 1 \<or> d = 2 \<or> d = 3 \<or> d = 4 \<or> d = 5 \<or> d = 6 \<or> d = 7 \<or> d = 8 \<or> d = 9"
  using assms by presburger

lemma digit_char_props:
  assumes "0 \<le> d" "d \<le> 9"
  shows "is_digit (digit_char d)" "digit_val (digit_char d) = d"
    "digit_char d \<noteq> CHR ''-''" "digit_char d \<noteq> CHR ''+''"
    "CHR ''-'' \<noteq> digit_char d" "CHR ''+'' \<noteq> digit_char d"
  using digit_cases[OF assms]
  by (auto simp: digit_char_values is_digit_def digit_val_def less_eq_char_def)


lemma decimal_digit_range:
  fixes n :: int
  shows "0 \<le> n mod 10" "n mod 10 \<le> 9"
proof -
  show "0 \<le> n mod 10" by simp
  have "n mod 10 < 10" by simp
  then show "n mod 10 \<le> 9" by linarith
qed

lemma div_div_10:
  fixes x a b :: int
  assumes "0 < a" "b = a * 10"
  shows "x div a = 10 * (x div b) + x div a mod 10"
proof -
  have "x div (a * 10) = x div a div 10"
    by (rule zdiv_zmult2_eq) simp
  then have "x div b = x div a div 10" using assms(2) by (simp only:)
  moreover have "x div a = 10 * (x div a div 10) + x div a mod 10"
    by (rule mult_div_mod_eq[symmetric])
  ultimately show ?thesis by (simp only:)
qed

lemma top_digit:
  fixes x a :: int
  assumes "0 \<le> x" "x < a * 10" "0 < a"
  shows "x div a mod 10 = x div a"
proof -
  define q where "q = x div a"
  have e: "x = a * q + x mod a" by (simp add: q_def)
  have m: "0 \<le> x mod a" using assms(3) by simp
  have "q < 10"
  proof (rule ccontr)
    assume "\<not> q < 10"
    then have "10 \<le> q" by simp
    then have "a * 10 \<le> a * q" using assms(3) by (simp add: mult_left_mono)
    with e m assms(2) show False by linarith
  qed
  moreover have "0 \<le> q" using assms by (simp add: q_def pos_imp_zdiv_nonneg_iff)
  ultimately have "q mod 10 = q" by (simp add: mod_pos_pos_trivial)
  then show ?thesis by (simp only: q_def)
qed

lemma digits_val_list:
  assumes "0 \<le> d0" "d0 \<le> 9" "0 \<le> d1" "d1 \<le> 9"
  shows "digits_val acc [digit_char d1, digit_char d0] = Some (10 * (10 * acc + d1) + d0)"
  using assms by (simp add: digit_char_props)

lemma digits_val_list4:
  assumes "0 \<le> d0" "d0 \<le> 9" "0 \<le> d1" "d1 \<le> 9" "0 \<le> d2" "d2 \<le> 9" "0 \<le> d3" "d3 \<le> 9"
  shows "digits_val 0 [digit_char d3, digit_char d2, digit_char d1, digit_char d0] =
         Some (10 * (10 * (10 * d3 + d2) + d1) + d0)"
  using assms by (simp add: digit_char_props)

lemma digits_val_list6:
  assumes "0 \<le> d0" "d0 \<le> 9" "0 \<le> d1" "d1 \<le> 9" "0 \<le> d2" "d2 \<le> 9" "0 \<le> d3" "d3 \<le> 9"
    "0 \<le> d4" "d4 \<le> 9" "0 \<le> d5" "d5 \<le> 9"
  shows "digits_val 0 [digit_char d5, digit_char d4, digit_char d3, digit_char d2,
                     digit_char d1, digit_char d0] =
         Some (10 * (10 * (10 * (10 * (10 * d5 + d4) + d3) + d2) + d1) + d0)"
  using assms by (simp add: digit_char_props)

lemma no_dash_list:
  assumes "0 \<le> d0" "d0 \<le> 9" "0 \<le> d1" "d1 \<le> 9"
  shows "CHR ''-'' \<notin> set [digit_char d1, digit_char d0]"
  using assms by (simp add: digit_char_props)

lemma no_dash_list4:
  assumes "0 \<le> d0" "d0 \<le> 9" "0 \<le> d1" "d1 \<le> 9" "0 \<le> d2" "d2 \<le> 9" "0 \<le> d3" "d3 \<le> 9"
  shows "CHR ''-'' \<notin> set [digit_char d3, digit_char d2, digit_char d1, digit_char d0]"
  using assms by (simp add: digit_char_props)

lemma no_dash_list6:
  assumes "0 \<le> d0" "d0 \<le> 9" "0 \<le> d1" "d1 \<le> 9" "0 \<le> d2" "d2 \<le> 9" "0 \<le> d3" "d3 \<le> 9"
    "0 \<le> d4" "d4 \<le> 9" "0 \<le> d5" "d5 \<le> 9"
  shows "CHR ''-'' \<notin> set [digit_char d5, digit_char d4, digit_char d3, digit_char d2,
                     digit_char d1, digit_char d0]"
  using assms by (simp add: digit_char_props)

lemma horner2:
  fixes x :: int
  assumes "d1 = q1" "x = 10 * q1 + d0"
  shows "10 * (10 * 0 + d1) + d0 = x"
  using assms by simp

lemma horner4:
  fixes x :: int
  assumes "d3 = q3" "x = 10 * q1 + d0" "q1 = 10 * q2 + d1" "q2 = 10 * q3 + d2"
  shows "10 * (10 * (10 * d3 + d2) + d1) + d0 = x"
  using assms by presburger

lemma horner6:
  fixes x :: int
  assumes "d5 = q5" "x = 10 * q1 + d0" "q1 = 10 * q2 + d1" "q2 = 10 * q3 + d2"
    "q3 = 10 * q4 + d3" "q4 = 10 * q5 + d4"
  shows "10 * (10 * (10 * (10 * (10 * d5 + d4) + d3) + d2) + d1) + d0 = x"
  using assms by presburger

lemma digits_val_pad2:
  assumes "0 \<le> x" "x \<le> 99"
  shows "digits_val 0 (pad2 x) = Some x" "CHR ''-'' \<notin> set (pad2 x)"
    "hd (pad2 x) \<noteq> CHR ''+''" "pad2 x \<noteq> []"
proof -
  have t: "x div 10 mod 10 = x div 10"
    by (rule top_digit) (use assms in simp_all)
  have e0: "x = 10 * (x div 10) + x mod 10"
    by (rule mult_div_mod_eq[symmetric])
  note r = decimal_digit_range[of x] decimal_digit_range[of "x div 10"]
  show "digits_val 0 (pad2 x) = Some x"
    unfolding pad2_def by (subst digits_val_list[OF r]) (simp only: horner2[OF t e0])
  show "CHR ''-'' \<notin> set (pad2 x)"
    unfolding pad2_def by (rule no_dash_list[OF r])
  show "hd (pad2 x) \<noteq> CHR ''+''"
    unfolding pad2_def list.sel by (rule digit_char_props(4)[OF r(3,4)])
  show "pad2 x \<noteq> []" unfolding pad2_def by (rule list.distinct(2))
qed

lemma digits_val_pad4:
  assumes "0 \<le> x" "x \<le> 9999"
  shows "digits_val 0 (pad4 x) = Some x" "CHR ''-'' \<notin> set (pad4 x)"
    "pad4 x \<noteq> []" "hd (pad4 x) \<noteq> CHR ''+''"
proof -
  have t: "x div 1000 mod 10 = x div 1000"
    by (rule top_digit) (use assms in simp_all)
  have e0: "x = 10 * (x div 10) + x mod 10"
    by (rule mult_div_mod_eq[symmetric])
  have e1: "x div 10 = 10 * (x div 100) + x div 10 mod 10"
    by (rule div_div_10) simp_all
  have e2: "x div 100 = 10 * (x div 1000) + x div 100 mod 10"
    by (rule div_div_10) simp_all
  note r = decimal_digit_range[of x] decimal_digit_range[of "x div 10"]
      decimal_digit_range[of "x div 100"] decimal_digit_range[of "x div 1000"]
  show "digits_val 0 (pad4 x) = Some x"
    unfolding pad4_def by (subst digits_val_list4[OF r]) (simp only: horner4[OF t e0 e1 e2])
  show "CHR ''-'' \<notin> set (pad4 x)"
    unfolding pad4_def by (rule no_dash_list4[OF r])
  show "pad4 x \<noteq> []" unfolding pad4_def by (rule list.distinct(2))
  show "hd (pad4 x) \<noteq> CHR ''+''"
    unfolding pad4_def list.sel by (rule digit_char_props(4)[OF r(7,8)])
qed

lemma digits_val_pad6:
  assumes "0 \<le> x" "x \<le> 999999"
  shows "digits_val 0 (pad6 x) = Some x" "CHR ''-'' \<notin> set (pad6 x)" "pad6 x \<noteq> []"
proof -
  have t: "x div 100000 mod 10 = x div 100000"
    by (rule top_digit) (use assms in simp_all)
  have e0: "x = 10 * (x div 10) + x mod 10"
    by (rule mult_div_mod_eq[symmetric])
  have e1: "x div 10 = 10 * (x div 100) + x div 10 mod 10"
    by (rule div_div_10) simp_all
  have e2: "x div 100 = 10 * (x div 1000) + x div 100 mod 10"
    by (rule div_div_10) simp_all
  have e3: "x div 1000 = 10 * (x div 10000) + x div 1000 mod 10"
    by (rule div_div_10) simp_all
  have e4: "x div 10000 = 10 * (x div 100000) + x div 10000 mod 10"
    by (rule div_div_10) simp_all
  note r = decimal_digit_range[of x] decimal_digit_range[of "x div 10"]
      decimal_digit_range[of "x div 100"] decimal_digit_range[of "x div 1000"]
      decimal_digit_range[of "x div 10000"] decimal_digit_range[of "x div 100000"]
  have p: "pad6 x = [digit_char (x div 100000 mod 10), digit_char (x div 10000 mod 10),
                     digit_char (x div 1000 mod 10), digit_char (x div 100 mod 10),
                     digit_char (x div 10 mod 10), digit_char (x mod 10)]"
    unfolding pad6_def pad4_def append.simps by (rule refl)
  show "digits_val 0 (pad6 x) = Some x"
    unfolding p by (subst digits_val_list6[OF r]) (simp only: horner6[OF t e0 e1 e2 e3 e4])
  show "CHR ''-'' \<notin> set (pad6 x)"
    unfolding p by (rule no_dash_list6[OF r])
  show "pad6 x \<noteq> []" unfolding p by (rule list.distinct(2))
qed


lemma Number_js_digits:
  assumes "s \<noteq> []" "hd s \<noteq> CHR ''+''"
  shows "Number_js s = digits_val 0 s"
  using assms by (cases s) (simp_all add: Number_js_def)

lemma Number_js_iso_year:
  assumes "0 \<le> y" "y \<le> 999999"
  shows "Number_js (iso_year y) = Some y" "CHR ''-'' \<notin> set (iso_year y)"
proof -
  show "Number_js (iso_year y) = Some y"
  proof (cases "y \<le> 9999")
    case True
    then have "iso_year y = pad4 y" using assms(1) by (simp add: iso_year_def)
    with Number_js_digits[OF digits_val_pad4(3,4)[OF assms(1) True]]
      digits_val_pad4(1)[OF assms(1) True]
    show ?thesis by (simp only:)
  next
    case False
    then have "iso_year y = CHR ''+'' # pad6 y" using assms(1) by (simp add: iso_year_def)
    with digits_val_pad6(1,3)[OF assms] show ?thesis
      by (simp add: Number_js_def)
  qed
  show "CHR ''-'' \<notin> set (iso_year y)"
  proof (cases "y \<le> 9999")
    case True
    then have "iso_year y = pad4 y" using assms(1) by (simp add: iso_year_def)
    with digits_val_pad4(2)[OF assms(1) True] show ?thesis by simp
  next
    case False
    then have "iso_year y = CHR ''+'' # pad6 y" using assms(1) by (simp add: iso_year_def)
    with digits_val_pad6(2)[OF assms] show ?thesis by simp
  qed
qed

lemma Number_js_pad2:
  assumes "0 \<le> x" "x \<le> 99"
  shows "Number_js (pad2 x) = Some x"
  using Number_js_digits[OF digits_val_pad2(4,3)[OF assms]] digits_val_pad2(1)[OF assms]
  by (simp only:)

lemma split_dash_piece:
  assumes "CHR ''-'' \<notin> set s"
  shows "split_dash acc (s @ CHR ''-'' # after) = (acc @ s) # split_dash [] after"
    and "split_dash acc s = [acc @ s]"
  using assms by (induction s arbitrary: acc) auto

lemma split_dash_date:
  assumes "CHR ''-'' \<notin> set a" "CHR ''-'' \<notin> set b" "CHR ''-'' \<notin> set c"
  shows "split_dash [] (a @ ''-'' @ b @ ''-'' @ c) = [a, b, c]"
  using assms by (simp add: split_dash_piece)

section \<open>A printed date reads back as the same day\<close>

lemma Day_mono: "a \<le> b \<Longrightarrow> Day a \<le> Day b"
  unfolding Day_def by (rule zdiv_mono1) (simp_all add: msPerDay_def)

lemma YearFromTime_mono_100:
  "100 \<le> YearFromTime a \<Longrightarrow> a \<le> b \<Longrightarrow> 100 \<le> YearFromTime b"
  unfolding YearFromTime_def by (rule YearFromDay_mono_100) (auto intro: Day_mono)

lemma YearFromTime_upper:
  assumes "tv \<le> 8640000000000000"
  shows "YearFromTime tv \<le> 275943"
proof -
  have "Day tv \<le> Day 8640000000000000" by (rule Day_mono[OF assms])
  also have "\<dots> = 100000000" by (simp add: Day_def msPerDay_def)
  finally show ?thesis unfolding YearFromTime_def by (rule YearFromDay_le)
qed

lemma local_midnight_day:
  assumes tz: "- 1440 < tz" "tz \<le> 0" and mid: "local_midnight tz tv"
  shows "tv = Day tv * msPerDay - tz * 60000"
proof -
  define d where "d = LocalTime tz tv div msPerDay"
  define off where "off = - (tz * 60000)"
  have "LocalTime tz tv = msPerDay * d + LocalTime tz tv mod msPerDay"
    by (simp add: d_def)
  with mid have l: "LocalTime tz tv = msPerDay * d" by (simp add: local_midnight_def)
  then have tv: "tv = msPerDay * d + off" by (simp add: LocalTime_def off_def)
  have o: "0 \<le> off" "off < msPerDay" using tz by (simp_all add: off_def msPerDay_def)
  have "(msPerDay * d + off) div msPerDay = d"
    using o by (simp add: div_pos_pos_trivial msPerDay_def)
  then have "Day tv = d" by (simp only: Day_def tv)
  with tv show ?thesis by (simp add: off_def)
qed

lemma toYYYYMMDD_pieces:
  assumes "100 \<le> YearFromTime tv" "tv \<le> 8640000000000000"
  shows "map Number_js (split_dash [] (toYYYYMMDD tv)) =
         [Some (YearFromTime tv), Some (MonthFromTime tv + 1), Some (DateFromTime tv)]"
proof -
  have y: "0 \<le> YearFromTime tv" "YearFromTime tv \<le> 999999"
    using assms(1) YearFromTime_upper[OF assms(2)] by simp_all
  have m: "0 \<le> MonthFromTime tv + 1" "MonthFromTime tv + 1 \<le> 99"
    using MonthFromTime_range[of tv] by simp_all
  have d: "0 \<le> DateFromTime tv" "DateFromTime tv \<le> 99"
    using DateFromTime_range[of tv] by simp_all
  have "split_dash [] (toYYYYMMDD tv) =
        [iso_year (YearFromTime tv), pad2 (MonthFromTime tv + 1), pad2 (DateFromTime tv)]"
    unfolding toYYYYMMDD_def
    by (rule split_dash_date)
       (rule Number_js_iso_year(2)[OF y] digits_val_pad2(2)[OF m] digits_val_pad2(2)[OF d])+
  then show ?thesis
    by (simp add: Number_js_iso_year(1)[OF y] Number_js_pad2[OF m] Number_js_pad2[OF d])
qed

lemma parse_print:
  assumes tz: "- 1440 < tz" "tz \<le> 0"
    and mid: "local_midnight tz tv"
    and yr: "100 \<le> YearFromTime tv"
  shows "parseDate tz (toYYYYMMDD tv) = Some tv"
proof -
  from mid have valid: "\<bar>tv\<bar> \<le> 8640000000000000" by (simp add: local_midnight_def)
  then have up: "tv \<le> 8640000000000000" by simp
  have "MakeDay (YearFromTime tv) (MonthFromTime tv) (DateFromTime tv + 0) = Day tv + 0"
    by (rule MakeDay_civil)
  then have md: "MakeDay (YearFromTime tv) (MonthFromTime tv) (DateFromTime tv) = Day tv"
    by simp
  have "parseDate tz (toYYYYMMDD tv) =
        TimeClip (UTC_of tz (MakeDate (Day tv) 0))"
    using yr by (simp add: parseDate_def toYYYYMMDD_pieces[OF yr up] new_Date_def md)
  also have "UTC_of tz (MakeDate (Day tv) 0) = tv"
    using local_midnight_day[OF tz mid] by (simp add: UTC_of_def MakeDate_def)
  finally show ?thesis using valid by (simp add: TimeClip_def)
qed

section \<open>Due dates are local midnights\<close>

lemma TimeClip_valid: "TimeClip x = Some y \<Longrightarrow> \<bar>y\<bar> \<le> 8640000000000000"
  by (simp add: TimeClip_def split: if_splits)

lemma parseDate_midnight:
  assumes "parseDate tz s = Some tv"
  shows "local_midnight tz tv"
proof -
  from assms obtain day where c: "TimeClip (UTC_of tz (MakeDate day 0)) = Some tv"
    by (auto simp: parseDate_def new_Date_def Let_def
        split: list.splits option.splits)
  from TimeClip_Some[OF c] have "LocalTime tz tv = day * msPerDay"
    by (simp add: LocalTime_def UTC_of_def MakeDate_def)
  with TimeClip_valid[OF c] show ?thesis by (simp add: local_midnight_def)
qed

lemma MakeDate_midnight:
  assumes "TimeClip (UTC_of tz (MakeDate day (TimeWithinDay (LocalTime tz tv)))) = Some tv'"
    and "local_midnight tz tv"
  shows "local_midnight tz tv'"
proof -
  from assms(2) have "TimeWithinDay (LocalTime tz tv) = 0"
    by (simp add: local_midnight_def TimeWithinDay_def)
  with TimeClip_Some[OF assms(1)] have "LocalTime tz tv' = day * msPerDay"
    by (simp add: LocalTime_def UTC_of_def MakeDate_def)
  with TimeClip_valid[OF assms(1)] show ?thesis by (simp add: local_midnight_def)
qed

lemma next_midnight:
  assumes "calculateNextDueDate tz t (Some tv) = Some (Some tv')"
    and "local_midnight tz tv"
  shows "local_midnight tz tv'"
proof -
  from assms(1) obtain day where
    "TimeClip (UTC_of tz (MakeDate day (TimeWithinDay (LocalTime tz tv)))) = Some tv'"
    by (auto simp: calculateNextDueDate_def Let_def setDate_def setMonth_def setFullYear_def
        split: if_splits)
  from MakeDate_midnight[OF this assms(2)] show ?thesis .
qed

lemma calculateNextDueDate_cursor [simp]:
  "calculateNextDueDate tz (t\<lparr>lastGeneratedDate := x\<rparr>) d = calculateNextDueDate tz t d"
  by (simp add: calculateNextDueDate_def)

lemma calculateNextDueDate_invalid:
  "calculateNextDueDate tz t None \<noteq> Some (Some tv)"
  by (simp add: calculateNextDueDate_def Let_def)

lemma first_due_midnight:
  assumes "first_due tz t = Some (Some nd)"
  shows "local_midnight tz nd"
proof (cases "truthy_str (lastGeneratedDate t)")
  case False
  with assms show ?thesis by (auto simp: first_due_def Let_def intro: parseDate_midnight)
next
  case True
  with assms have n: "calculateNextDueDate tz t (parseDate tz (the (lastGeneratedDate t)))
                      = Some (Some nd)"
    by (simp add: first_due_def Let_def)
  show ?thesis
  proof (cases "parseDate tz (the (lastGeneratedDate t))")
    case None
    with n calculateNextDueDate_invalid show ?thesis by metis
  next
    case (Some cv)
    with n next_midnight[OF _ parseDate_midnight[OF Some]] show ?thesis by simp
  qed
qed

section \<open>A second pass on the stored collections\<close>

lemma loop_stops_cursor [simp]:
  "loop_stops today E (t\<lparr>lastGeneratedDate := x\<rparr>) nx new = loop_stops today E t nx new"
  by (simp add: loop_stops_def date_break_def count_break_def totalGenerated_def
      references_def[abs_def] split: option.splits)

lemma count_break_mono: "count_break t k \<Longrightarrow> k \<le> k' \<Longrightarrow> count_break t k'"
  by (auto simp: count_break_def)

lemma loop_stops_grow:
  assumes "loop_stops today E t nx new"
  shows "loop_stops today E t nx (new @ added)"
proof -
  have "totalGenerated E new t \<le> totalGenerated E (new @ added) t"
    by (simp add: totalGenerated_def)
  with assms show ?thesis
    by (auto simp: loop_stops_def split: option.splits dest: count_break_mono)
qed

lemma loop_stops_stored:
  assumes "loop_stops today E t nx new"
  shows "loop_stops today (setExpenses_new new E) t nx []"
proof -
  have "totalGenerated (setExpenses_new new E) [] t = totalGenerated E new t"
    by (simp add: totalGenerated_def setExpenses_new_def)
  with assms show ?thesis by (simp add: loop_stops_def split: option.splits)
qed

lemma gen_loop_trace:
  assumes run: "gen_loop tz u today E t nx0 t new n = Some (ut', new', n')"
    and ok: "\<forall>i. recurrenceInterval t = Some i \<longrightarrow> 0 \<le> i"
    and start: "\<forall>nd. nx0 = Some (Some nd) \<longrightarrow> local_midnight tz nd"
  shows "(ut' = t \<and> new' = new \<and> loop_stops today E t nx0 new) \<or>
         (\<exists>c nd0. nx0 = Some (Some nd0) \<and> nd0 \<le> c \<and> local_midnight tz c \<and>
            ut' = t\<lparr>lastGeneratedDate := Some (toYYYYMMDD c)\<rparr> \<and>
            loop_stops today E t (calculateNextDueDate tz t (Some c)) new')"
proof -
  define P where "P c \<longleftrightarrow> local_midnight tz c \<and> (\<exists>nd0. nx0 = Some (Some nd0) \<and> nd0 \<le> c)" for c
  let ?I = "\<lambda>nx ut1 new1 (n1 :: nat).
      (\<forall>nd. nx = Some (Some nd) \<longrightarrow> P nd) \<and>
      ((nx = nx0 \<and> ut1 = t \<and> new1 = new) \<or>
       (\<exists>c. P c \<and> nx = calculateNextDueDate tz t (Some c) \<and>
            ut1 = t\<lparr>lastGeneratedDate := Some (toYYYYMMDD c)\<rparr>))"
  have "\<exists>nextDue'. ?I nextDue' ut' new' n' \<and> loop_stops today E t nextDue' new'"
  proof (rule gen_loop_rule[where I = ?I, OF run])
    show "?I nx0 t new n" using start by (auto simp: P_def)
  next
    fix nd ut1 new1 n1
    assume I: "?I (Some (Some nd)) ut1 new1 n1"
    then have Pnd: "P nd" by blast
    have nextP: "P nd'" if "calculateNextDueDate tz t (Some nd) = Some (Some nd')" for nd'
    proof -
      from next_midnight[OF that] Pnd have "local_midnight tz nd'" by (simp add: P_def)
      moreover from next_advances[OF ok that] Pnd
      have "\<exists>nd0. nx0 = Some (Some nd0) \<and> nd0 \<le> nd'" by (auto simp: P_def)
      ultimately show ?thesis by (simp add: P_def)
    qed
    from I have "ut1\<lparr>lastGeneratedDate := Some (toYYYYMMDD nd)\<rparr> =
                 t\<lparr>lastGeneratedDate := Some (toYYYYMMDD nd)\<rparr>"
      by auto
    with Pnd nextP show "?I (calculateNextDueDate tz t (Some nd))
          (ut1\<lparr>lastGeneratedDate := Some (toYYYYMMDD nd)\<rparr>)
          (fst (loop_step u E t nd new1 n1)) (snd (loop_step u E t nd new1 n1))"
      by auto
  qed
  then obtain nx where nx: "?I nx ut' new' n'" and stop: "loop_stops today E t nx new'"
    by blast
  from nx stop show ?thesis by (auto simp: P_def)
qed

lemma gen_loop_stops:
  assumes "loop_stops today E t nx new"
  shows "gen_loop tz u today E t nx ut new n = Some (ut, new, n)"
  using assms
  by (subst gen_loop.simps) (auto simp: loop_stops_def split: option.splits)

lemma process_template_settled:
  assumes "settled tz today E (newExpenses st) t"
  shows "\<exists>st'. process_template tz u today E t st = Some st' \<and> delta_of st' = delta_of st"
proof (cases "truthy_str (date t)")
  case False
  then show ?thesis by (simp add: process_template_def delta_of_def)
next
  case True
  with assms have "loop_stops today E t (first_due tz t) (newExpenses st)"
    by (simp add: settled_def)
  from gen_loop_stops[OF this] True show ?thesis
    by (simp add: process_template_def delta_of_def)
qed

lemma forEach_settled:
  assumes "\<forall>t \<in> set ts. settled tz today E [] t" "newExpenses st = []"
  shows "\<exists>st'. forEach_template tz u today E ts st = Some st' \<and> delta_of st' = delta_of st"
  using assms
proof (induction ts arbitrary: st)
  case Nil
  then show ?case by simp
next
  case (Cons t ts)
  from Cons.prems have "settled tz today E (newExpenses st) t" by simp
  from process_template_settled[OF this, of u] obtain s1 where
    s1: "process_template tz u today E t st = Some s1" "delta_of s1 = delta_of st" by blast
  from s1(2) Cons.prems(2) have "newExpenses s1 = []" by (simp add: delta_of_def)
  from Cons.IH[OF _ this] Cons.prems(1) obtain st' where
    "forEach_template tz u today E ts s1 = Some st'" "delta_of st' = delta_of s1" by auto
  with s1 show ?case by simp
qed

lemma settled_grow:
  "settled tz today E new t \<Longrightarrow> settled tz today E (new @ added) t"
  by (auto simp: settled_def intro: loop_stops_grow)

lemma settled_stored:
  "settled tz today E new t \<Longrightarrow> settled tz today (setExpenses_new new E) [] t"
  by (auto simp: settled_def intro: loop_stops_stored)

lemma regular_interval:
  "regular tz t \<Longrightarrow> \<forall>i. recurrenceInterval t = Some i \<longrightarrow> 0 \<le> i"
  by (auto simp: regular_def)

lemma first_due_cursor:
  assumes tz: "- 1440 < tz" "tz \<le> 0"
    and c: "local_midnight tz c" "100 \<le> YearFromTime c"
  shows "first_due tz (t\<lparr>lastGeneratedDate := Some (toYYYYMMDD c)\<rparr>) =
         calculateNextDueDate tz t (Some c)"
proof -
  have "truthy_str (Some (toYYYYMMDD c))"
    by (simp add: truthy_str_def toYYYYMMDD_def)
  then show ?thesis
    by (simp add: first_due_def Let_def parse_print[OF tz c])
qed

lemma process_template_settles:
  assumes tz: "- 1440 < tz" "tz \<le> 0"
    and reg: "regular tz t"
    and run: "process_template tz u today E t st = Some st'"
  shows "(\<exists>added. newExpenses st' = newExpenses st @ added) \<and>
         ((templatesToUpdate st' = templatesToUpdate st \<and>
           settled tz today E (newExpenses st') t) \<or>
          (\<exists>ut. templatesToUpdate st' = templatesToUpdate st @ [ut] \<and>
                expense_id ut = expense_id t \<and>
                settled tz today E (newExpenses st') ut))"
proof (cases "truthy_str (date t)")
  case False
  with run show ?thesis by (auto simp: process_template_def settled_def)
next
  case True
  with run obtain ut' new' n' where
    loop: "gen_loop tz u today E t (first_due tz t) t (newExpenses st) (uuidsDrawn st) =
            Some (ut', new', n')"
    and st': "newExpenses st' = new'"
      "templatesToUpdate st' =
         (if truthy_str (lastGeneratedDate ut') \<and> lastGeneratedDate ut' \<noteq> lastGeneratedDate t
          then templatesToUpdate st @ [ut'] else templatesToUpdate st)"
    by (auto simp: process_template_def split: option.splits)
  from gen_loop_shape[OF loop] have grow: "\<exists>added. new' = newExpenses st @ added" by blast
  have start: "\<forall>nd. first_due tz t = Some (Some nd) \<longrightarrow> local_midnight tz nd"
    by (auto intro: first_due_midnight)
  from gen_loop_trace[OF loop regular_interval[OF reg] start]
  consider
      (idle) "ut' = t" "loop_stops today E t (first_due tz t) new'"
    | (moved) c nd0 where "first_due tz t = Some (Some nd0)" "nd0 \<le> c" "local_midnight tz c"
        "ut' = t\<lparr>lastGeneratedDate := Some (toYYYYMMDD c)\<rparr>"
        "loop_stops today E t (calculateNextDueDate tz t (Some c)) new'"
    by blast
  then have "(templatesToUpdate st' = templatesToUpdate st \<and> settled tz today E new' t) \<or>
          (\<exists>ut. templatesToUpdate st' = templatesToUpdate st @ [ut] \<and>
                expense_id ut = expense_id t \<and> settled tz today E new' ut)"
  proof cases
    case idle
    with st' show ?thesis by (simp add: settled_def)
  next
    case moved
    from reg moved(1) have "100 \<le> YearFromTime nd0" by (simp add: regular_def)
    from YearFromTime_mono_100[OF this moved(2)] have yr: "100 \<le> YearFromTime c" .
    note fd = first_due_cursor[OF tz moved(3) yr, of t]
    have set': "settled tz today E new' ut'"
      using moved(5) by (simp add: settled_def moved(4) fd)
    show ?thesis
    proof (cases "lastGeneratedDate ut' = lastGeneratedDate t")
      case False
      moreover have "truthy_str (lastGeneratedDate ut')"
        by (simp add: moved(4) truthy_str_def toYYYYMMDD_def)
      ultimately show ?thesis using st' set' moved(4) by simp
    next
      case same: True
      then have "t\<lparr>lastGeneratedDate := Some (toYYYYMMDD c)\<rparr> = t"
        by (simp add: moved(4))
      with fd have "first_due tz t = calculateNextDueDate tz t (Some c)" by simp
      with moved(1) have "calculateNextDueDate tz t (Some c) = Some (Some nd0)" by simp
      from next_advances[OF regular_interval[OF reg] this] moved(2) show ?thesis by simp
    qed
  qed
  with grow st' show ?thesis by simp
qed

lemma forEach_settles:
  assumes tz: "- 1440 < tz" "tz \<le> 0"
    and reg: "\<forall>t \<in> set ts. regular tz t"
    and run: "forEach_template tz u today E ts st = Some st'"
  shows "\<exists>added au. newExpenses st' = newExpenses st @ added \<and>
           templatesToUpdate st' = templatesToUpdate st @ au \<and>
           (\<forall>ut \<in> set au. settled tz today E (newExpenses st') ut) \<and>
           (\<forall>t \<in> set ts. settled tz today E (newExpenses st') t \<or>
                          (\<exists>ut \<in> set au. expense_id ut = expense_id t))"
  using reg run
proof (induction ts arbitrary: st)
  case Nil
  then show ?case by simp
next
  case (Cons t ts)
  from Cons.prems(2) obtain s1 where s1: "process_template tz u today E t st = Some s1"
      and rest: "forEach_template tz u today E ts s1 = Some st'"
    by (auto split: option.splits)
  from Cons.prems(1) have rt: "regular tz t" and rts: "\<forall>t \<in> set ts. regular tz t"
    by simp_all
  from process_template_settles[OF tz rt s1] obtain added1 au1 where
    a1: "newExpenses s1 = newExpenses st @ added1"
      "templatesToUpdate s1 = templatesToUpdate st @ au1"
      "\<forall>ut \<in> set au1. settled tz today E (newExpenses s1) ut"
      "settled tz today E (newExpenses s1) t \<or> (\<exists>ut \<in> set au1. expense_id ut = expense_id t)"
    by (elim conjE disjE exE) (force intro: exI[of _ "[]"])+
  from Cons.IH[OF rts rest] obtain added2 au2 where
    a2: "newExpenses st' = newExpenses s1 @ added2"
      "templatesToUpdate st' = templatesToUpdate s1 @ au2"
      "\<forall>ut \<in> set au2. settled tz today E (newExpenses st') ut"
      "\<forall>t \<in> set ts. settled tz today E (newExpenses st') t \<or>
                          (\<exists>ut \<in> set au2. expense_id ut = expense_id t)"
    by blast
  have g: "settled tz today E (newExpenses st') x" if "settled tz today E (newExpenses s1) x" for x
    using settled_grow[OF that, of added2] a2(1) by simp
  have f1: "newExpenses st' = newExpenses st @ (added1 @ added2)"
    using a1(1) a2(1) by simp
  have f2: "templatesToUpdate st' = templatesToUpdate st @ (au1 @ au2)"
    using a1(2) a2(2) by simp
  have f3: "\<forall>ut \<in> set (au1 @ au2). settled tz today E (newExpenses st') ut"
    using a1(3) a2(3) g by auto
  have f4: "\<forall>t \<in> set (t # ts). settled tz today E (newExpenses st') t \<or>
                          (\<exists>ut \<in> set (au1 @ au2). expense_id ut = expense_id t)"
    using a1(4) a2(4) g by auto
  show ?case
    by (rule exI[of _ "added1 @ added2"], rule exI[of _ "au1 @ au2"])
       (use f1 f2 f3 f4 in blast)
qed

lemma stored_templates_settled:
  assumes upd: "\<forall>ut \<in> set upd. settled tz today E new ut"
    and old: "\<forall>t \<in> set T. settled tz today E new t \<or> (\<exists>ut \<in> set upd. expense_id ut = expense_id t)"
    and t': "t' \<in> set (setRecurringExpenses_updated upd T)"
  shows "settled tz today E new t'"
proof (cases "upd = []")
  case True
  with t' old show ?thesis by (auto simp: setRecurringExpenses_updated_def)
next
  case False
  with t' obtain t where t: "t \<in> set T"
    "t' = (case find (\<lambda>ut. expense_id ut = expense_id t) upd of Some ut \<Rightarrow> ut | None \<Rightarrow> t)"
    by (auto simp: setRecurringExpenses_updated_def)
  show ?thesis
  proof (cases "find (\<lambda>ut. expense_id ut = expense_id t) upd")
    case None
    then have "\<not> (\<exists>ut \<in> set upd. expense_id ut = expense_id t)"
      by (simp add: find_None_iff)
    with old t None show ?thesis by auto
  next
    case (Some ut)
    from find_Some_member[OF Some] upd t(2) Some show ?thesis by simp
  qed
qed

text \<open>
  Idempotence where local midnights and UTC days agree. In a zone at or behind UTC, for
  regular templates, a second pass on the stored collections and the same day returns
  and hands the setters nothing: no new instance, no updated template, no identifier
  drawn.
\<close>

theorem second_pass_empty:
  assumes "- 1440 < tz" "tz \<le> 0"
    and "\<forall>t \<in> set T. regular tz t"
    and "generate tz u today T E = Some st"
  shows "\<exists>st2. generate tz u2 today
                  (setRecurringExpenses_updated (templatesToUpdate st) T)
                  (setExpenses_new (newExpenses st) E) = Some st2 \<and>
               newExpenses st2 = [] \<and> templatesToUpdate st2 = [] \<and> uuidsDrawn st2 = 0"
proof -
  from forEach_settles[OF assms(1-3) assms(4)[unfolded generate_def]]
  have upd: "\<forall>ut \<in> set (templatesToUpdate st). settled tz today E (newExpenses st) ut"
    and old: "\<forall>t \<in> set T. settled tz today E (newExpenses st) t \<or>
                (\<exists>ut \<in> set (templatesToUpdate st). expense_id ut = expense_id t)"
    by auto
  have "\<forall>t' \<in> set (setRecurringExpenses_updated (templatesToUpdate st) T).
          settled tz today (setExpenses_new (newExpenses st) E) [] t'"
    using stored_templates_settled[OF upd old] settled_stored by blast
  from forEach_settled[OF this, of
      "\<lparr>newExpenses = [], templatesToUpdate = [], uuidsDrawn = 0, warnings = []\<rparr>" u2]
  show ?thesis by (auto simp: generate_def delta_of_def)
qed

theorem second_pass_empty_witness:
  "regular 0 blank \<and>
   generate 0 uuids 1704326400000 [blank] [] =
     Some \<lparr>newExpenses =
             [make_instance blank ''u'' ''2024-01-01'', make_instance blank ''ui'' ''2024-01-02'',
              make_instance blank ''uii'' ''2024-01-03'', make_instance blank ''uiii'' ''2024-01-04''],
           templatesToUpdate = [blank\<lparr>lastGeneratedDate := Some ''2024-01-04''\<rparr>],
           uuidsDrawn = 4, warnings = []\<rparr> \<and>
   generate 0 uuids 1704326400000 [blank\<lparr>lastGeneratedDate := Some ''2024-01-04''\<rparr>]
     [make_instance blank ''u'' ''2024-01-01'', make_instance blank ''ui'' ''2024-01-02'',
      make_instance blank ''uii'' ''2024-01-03'', make_instance blank ''uiii'' ''2024-01-04''] =
     Some \<lparr>newExpenses = [], templatesToUpdate = [], uuidsDrawn = 0, warnings = []\<rparr>"
proof -
  let ?st = "\<lparr>newExpenses =
             [make_instance blank ''u'' ''2024-01-01'', make_instance blank ''ui'' ''2024-01-02'',
              make_instance blank ''uii'' ''2024-01-03'', make_instance blank ''uiii'' ''2024-01-04''],
           templatesToUpdate = [blank\<lparr>lastGeneratedDate := Some ''2024-01-04''\<rparr>],
           uuidsDrawn = 4, warnings = []\<rparr>"
  have r: "regular 0 blank" by code_simp
  then have rs: "\<forall>t \<in> set [blank]. regular 0 t" by simp
  have g: "generate 0 uuids 1704326400000 [blank] [] = Some ?st"
    by (rule scenario_A_utc)
  have z: "- 1440 < (0::int)" "(0::int) \<le> 0" by simp_all
  from second_pass_empty[OF z rs g, of uuids] obtain st2 where
    st2: "generate 0 uuids 1704326400000
            (setRecurringExpenses_updated (templatesToUpdate ?st) [blank])
            (setExpenses_new (newExpenses ?st) []) = Some st2"
      "newExpenses st2 = []" "templatesToUpdate st2 = []" "uuidsDrawn st2 = 0"
    by blast
  have w: "generate 0 uuids 1704326400000 [blank\<lparr>lastGeneratedDate := Some ''2024-01-04''\<rparr>]
     [make_instance blank ''u'' ''2024-01-01'', make_instance blank ''ui'' ''2024-01-02'',
      make_instance blank ''uii'' ''2024-01-03'', make_instance blank ''uiii'' ''2024-01-04''] =
     Some \<lparr>newExpenses = [], templatesToUpdate = [], uuidsDrawn = 0, warnings = []\<rparr>"
    by code_simp
  from r g w st2 show ?thesis by simp
qed

end
